theory Spec2Isabelle
  imports Main
begin

section \<open>Untyped records\<close>

text \<open>
  The decoder of \<^verbatim>\<open>internal/consumer/atproto.go\<close> receives a record as Go's
  \<^verbatim>\<open>map[string]interface{}\<close>, the shape \<^verbatim>\<open>encoding/json\<close> produces: a value is nil, a
  bool, a number, a string, an array or an object. The decoder never inspects a number, so
  its payload is kept as an integer only to have one. An object is an association list read
  with \<open>map_of\<close>: \<^verbatim>\<open>m[k]\<close> finds the entry of \<open>k\<close> or nothing.
\<close>

datatype jvalue =
    JNull
  | JBool bool
  | JNum int
  | JStr string
  | JArr "jvalue list"
  | JObj "(string \<times> jvalue) list"

type_synonym jobject = "(string \<times> jvalue) list"

text \<open>The type assertions \<^verbatim>\<open>m[k].(string)\<close>, \<^verbatim>\<open>.(bool)\<close>, \<^verbatim>\<open>.([]interface{})\<close> and
  \<^verbatim>\<open>.(map[string]interface{})\<close> on a looked-up entry: a missing key gives nil, on which
  every assertion fails.\<close>

fun as_string :: "jvalue option \<Rightarrow> string option" where
  "as_string (Some (JStr s)) = Some s"
| "as_string _ = None"

fun as_bool :: "jvalue option \<Rightarrow> bool option" where
  "as_bool (Some (JBool b)) = Some b"
| "as_bool _ = None"

fun as_array :: "jvalue option \<Rightarrow> jvalue list option" where
  "as_array (Some (JArr xs)) = Some xs"
| "as_array _ = None"

fun as_object :: "jvalue option \<Rightarrow> jobject option" where
  "as_object (Some (JObj m)) = Some m"
| "as_object _ = None"

text \<open>The recurring test \<^verbatim>\<open>v, ok := m[k].(string); if !ok || v == ""\<close>: the string when
  it is there and not empty.\<close>

definition required_string :: "jobject \<Rightarrow> string \<Rightarrow> string option" where
  "required_string m k =
     (case as_string (map_of m k) of
        None \<Rightarrow> None
      | Some s \<Rightarrow> if s = [] then None else Some s)"

section \<open>The typed model\<close>

text \<open>The structs of package \<^verbatim>\<open>models\<close> the decoder fills, with the fields it sets.\<close>

record Option_rec =
  opt_ID :: string
  opt_Text :: string

record Question =
  q_ID :: string
  q_Text :: string
  q_Type :: string
  q_Required :: bool
  q_Options :: "Option_rec list"

record SurveyDefinition =
  Questions :: "Question list"
  Anonymous :: bool

record Answer =
  SelectedOptions :: "string list"
  Text :: string

text \<open>The errors of the decoder, one constructor per \<^verbatim>\<open>fmt.Errorf\<close> message; the numbers
  are the indices the message prints.\<close>

datatype parse_error =
    SurveyNameRequired
  | SurveyNoQuestions
  | QuestionNotObject nat
  | QuestionIdRequired nat
  | QuestionTextRequired nat
  | QuestionTypeRequired nat
  | OptionNotObject nat nat
  | OptionIdRequired nat nat
  | OptionTextRequired nat nat
  | SubjectRequired
  | SubjectUriRequired
  | AnswersRequired
  | AnswerNotObject nat
  | AnswerQuestionIdRequired nat
  | SelectedOptionsNotArray nat
  | SelectedOptionNotString nat nat
  | AnswerTextNotString nat

section \<open>Survey records\<close>

definition parseOption :: "jobject \<Rightarrow> nat \<Rightarrow> nat \<Rightarrow> parse_error + Option_rec" where
  "parseOption optObj qIndex optIndex =
     (case required_string optObj ''id'' of
        None \<Rightarrow> Inl (OptionIdRequired qIndex optIndex)
      | Some ident \<Rightarrow>
          (case required_string optObj ''text'' of
             None \<Rightarrow> Inl (OptionTextRequired qIndex optIndex)
           | Some txt \<Rightarrow> Inr \<lparr>opt_ID = ident, opt_Text = txt\<rparr>))"

text \<open>The loop over \<^verbatim>\<open>optionsRaw\<close>: \<open>j\<close> is the loop index, \<open>acc\<close> the slice
  \<^verbatim>\<open>options\<close> appended to so far.\<close>

fun parseOptions :: "jvalue list \<Rightarrow> nat \<Rightarrow> nat \<Rightarrow> Option_rec list \<Rightarrow> parse_error + Option_rec list" where
  "parseOptions [] index j acc = Inr acc"
| "parseOptions (optRaw # rest) index j acc =
     (case optRaw of
        JObj optObj \<Rightarrow>
          (case parseOption optObj index j of
             Inl e \<Rightarrow> Inl e
           | Inr opt \<Rightarrow> parseOptions rest index (Suc j) (acc @ [opt]))
      | _ \<Rightarrow> Inl (OptionNotObject index j))"

text \<open>\<^verbatim>\<open>strings.Split(tokenType, "#")\<close>, and the part \<open>stripTokenPrefix\<close> keeps. Split
  always returns at least one part.\<close>

fun split_hash :: "string \<Rightarrow> string list" where
  "split_hash [] = [[]]"
| "split_hash (c # cs) =
     (if c = CHR ''#'' then [] # split_hash cs
      else (case split_hash cs of
              p # ps \<Rightarrow> (c # p) # ps
            | [] \<Rightarrow> [[c]]))"

definition stripTokenPrefix :: "string \<Rightarrow> string" where
  "stripTokenPrefix tokenType =
     (let parts = split_hash tokenType
      in if length parts > 1 then parts ! (length parts - 1) else tokenType)"

definition parseQuestion :: "jobject \<Rightarrow> nat \<Rightarrow> parse_error + Question" where
  "parseQuestion qObj index =
     (case required_string qObj ''id'' of
        None \<Rightarrow> Inl (QuestionIdRequired index)
      | Some ident \<Rightarrow>
     (case required_string qObj ''text'' of
        None \<Rightarrow> Inl (QuestionTextRequired index)
      | Some txt \<Rightarrow>
     (case required_string qObj ''type'' of
        None \<Rightarrow> Inl (QuestionTypeRequired index)
      | Some typeRaw \<Rightarrow>
     (let questionType = stripTokenPrefix typeRaw;
          required = (case as_bool (map_of qObj ''required'') of Some b \<Rightarrow> b | None \<Rightarrow> False)
      in case (case as_array (map_of qObj ''options'') of
                 Some optionsRaw \<Rightarrow> parseOptions optionsRaw index 0 []
               | None \<Rightarrow> Inr []) of
           Inl e \<Rightarrow> Inl e
         | Inr options \<Rightarrow>
             Inr \<lparr>q_ID = ident, q_Text = txt, q_Type = questionType,
                  q_Required = required, q_Options = options\<rparr>))))"

fun parseQuestions :: "jvalue list \<Rightarrow> nat \<Rightarrow> Question list \<Rightarrow> parse_error + Question list" where
  "parseQuestions [] i acc = Inr acc"
| "parseQuestions (qRaw # rest) i acc =
     (case qRaw of
        JObj qObj \<Rightarrow>
          (case parseQuestion qObj i of
             Inl e \<Rightarrow> Inl e
           | Inr question \<Rightarrow> parseQuestions rest (Suc i) (acc @ [question]))
      | _ \<Rightarrow> Inl (QuestionNotObject i))"

text \<open>\<open>ParseSurveyRecord\<close> returns the definition, the name and the description, or the
  error.\<close>

definition ParseSurveyRecord :: "jobject \<Rightarrow> parse_error + (SurveyDefinition \<times> string \<times> string)" where
  "ParseSurveyRecord record =
     (case required_string record ''name'' of
        None \<Rightarrow> Inl SurveyNameRequired
      | Some name \<Rightarrow>
     (let description = (case as_string (map_of record ''description'') of Some d \<Rightarrow> d | None \<Rightarrow> []);
          anonymous = (case as_bool (map_of record ''anonymous'') of Some b \<Rightarrow> b | None \<Rightarrow> False)
      in case as_array (map_of record ''questions'') of
           None \<Rightarrow> Inl SurveyNoQuestions
         | Some questionsRaw \<Rightarrow>
             if questionsRaw = [] then Inl SurveyNoQuestions
             else (case parseQuestions questionsRaw 0 [] of
                     Inl e \<Rightarrow> Inl e
                   | Inr questions \<Rightarrow>
                       Inr (\<lparr>Questions = questions, Anonymous = anonymous\<rparr>, name, description))))"

section \<open>Response records\<close>

text \<open>The inner loop over \<^verbatim>\<open>selectedArr\<close>, appending to \<^verbatim>\<open>answer.SelectedOptions\<close>.\<close>

fun parseSelected :: "jvalue list \<Rightarrow> nat \<Rightarrow> nat \<Rightarrow> string list \<Rightarrow> parse_error + string list" where
  "parseSelected [] i j acc = Inr acc"
| "parseSelected (optRaw # rest) i j acc =
     (case optRaw of
        JStr optID \<Rightarrow> parseSelected rest i (Suc j) (acc @ [optID])
      | _ \<Rightarrow> Inl (SelectedOptionNotString i j))"

text \<open>The body of the loop over \<^verbatim>\<open>answersRaw\<close> for one element: the question id and the
  answer stored under it.\<close>

definition parseAnswer :: "jvalue \<Rightarrow> nat \<Rightarrow> parse_error + (string \<times> Answer)" where
  "parseAnswer ansRaw i =
     (case ansRaw of
        JObj ansObj \<Rightarrow>
          (case required_string ansObj ''questionId'' of
             None \<Rightarrow> Inl (AnswerQuestionIdRequired i)
           | Some questionID \<Rightarrow>
               (case (case map_of ansObj ''selectedOptions'' of
                        None \<Rightarrow> Inr []
                      | Some selectedRaw \<Rightarrow>
                          (case selectedRaw of
                             JArr selectedArr \<Rightarrow> parseSelected selectedArr i 0 []
                           | _ \<Rightarrow> Inl (SelectedOptionsNotArray i))) of
                  Inl e \<Rightarrow> Inl e
                | Inr selected \<Rightarrow>
                    (case map_of ansObj ''text'' of
                       None \<Rightarrow> Inr (questionID, \<lparr>SelectedOptions = selected, Text = []\<rparr>)
                     | Some textRaw \<Rightarrow>
                         (case textRaw of
                            JStr textStr \<Rightarrow>
                              Inr (questionID, \<lparr>SelectedOptions = selected, Text = textStr\<rparr>)
                          | _ \<Rightarrow> Inl (AnswerTextNotString i)))))
      | _ \<Rightarrow> Inl (AnswerNotObject i))"

fun parseAnswers :: "jvalue list \<Rightarrow> nat \<Rightarrow> (string \<rightharpoonup> Answer) \<Rightarrow> parse_error + (string \<rightharpoonup> Answer)" where
  "parseAnswers [] i answers = Inr answers"
| "parseAnswers (ansRaw # rest) i answers =
     (case parseAnswer ansRaw i of
        Inl e \<Rightarrow> Inl e
      | Inr (questionID, answer) \<Rightarrow> parseAnswers rest (Suc i) (answers(questionID \<mapsto> answer)))"

definition ParseResponseRecord :: "jobject \<Rightarrow> parse_error + (string \<times> (string \<rightharpoonup> Answer))" where
  "ParseResponseRecord record =
     (case as_object (map_of record ''subject'') of
        None \<Rightarrow> Inl SubjectRequired
      | Some subject \<Rightarrow>
     (case required_string subject ''uri'' of
        None \<Rightarrow> Inl SubjectUriRequired
      | Some surveyURI \<Rightarrow>
     (case as_array (map_of record ''answers'') of
        None \<Rightarrow> Inl AnswersRequired
      | Some answersRaw \<Rightarrow>
          if answersRaw = [] then Inl AnswersRequired
          else (case parseAnswers answersRaw 0 Map.empty of
                  Inl e \<Rightarrow> Inl e
                | Inr answers \<Rightarrow> Inr (surveyURI, answers)))))"

definition ParseResultsRecord :: "jobject \<Rightarrow> parse_error + string" where
  "ParseResultsRecord record =
     (case as_object (map_of record ''subject'') of
        None \<Rightarrow> Inl SubjectRequired
      | Some subject \<Rightarrow>
     (case required_string subject ''uri'' of
        None \<Rightarrow> Inl SubjectUriRequired
      | Some surveyURI \<Rightarrow> Inr surveyURI))"

section \<open>What the decoder requires, stated on the record\<close>

text \<open>
  The predicates below state on the untyped record what the specification requires of it;
  they are compared with the decoder, not used by it. A field is a non-empty string:
\<close>

definition nonempty_string_field :: "jobject \<Rightarrow> string \<Rightarrow> bool" where
  "nonempty_string_field m k = (case map_of m k of Some (JStr s) \<Rightarrow> s \<noteq> [] | _ \<Rightarrow> False)"

text \<open>An option, a question and a survey record carrying every required field.\<close>

fun valid_option :: "jvalue \<Rightarrow> bool" where
  "valid_option (JObj m) = (nonempty_string_field m ''id'' \<and> nonempty_string_field m ''text'')"
| "valid_option _ = False"

fun valid_question :: "jvalue \<Rightarrow> bool" where
  "valid_question (JObj m) =
     (nonempty_string_field m ''id'' \<and> nonempty_string_field m ''text'' \<and>
      nonempty_string_field m ''type'' \<and>
      (case map_of m ''options'' of Some (JArr os) \<Rightarrow> list_all valid_option os | _ \<Rightarrow> True))"
| "valid_question _ = False"

definition valid_survey_record :: "jobject \<Rightarrow> bool" where
  "valid_survey_record r =
     (nonempty_string_field r ''name'' \<and>
      (case map_of r ''questions'' of
         Some (JArr qs) \<Rightarrow> qs \<noteq> [] \<and> list_all valid_question qs
       | _ \<Rightarrow> False))"

text \<open>The error that names the first required field an option, a question or a survey
  record lacks, with the index of the question and of the option: the fields are tried in
  the order id, text, type, options, and every element before the faulty one is valid.\<close>

definition option_fault :: "jvalue \<Rightarrow> nat \<Rightarrow> nat \<Rightarrow> parse_error \<Rightarrow> bool" where
  "option_fault v i j e =
     (case v of
        JObj m \<Rightarrow>
          (if \<not> nonempty_string_field m ''id'' then e = OptionIdRequired i j
           else \<not> nonempty_string_field m ''text'' \<and> e = OptionTextRequired i j)
      | _ \<Rightarrow> e = OptionNotObject i j)"

definition question_fault :: "jvalue \<Rightarrow> nat \<Rightarrow> parse_error \<Rightarrow> bool" where
  "question_fault v i e =
     (case v of
        JObj m \<Rightarrow>
          (if \<not> nonempty_string_field m ''id'' then e = QuestionIdRequired i
           else if \<not> nonempty_string_field m ''text'' then e = QuestionTextRequired i
           else if \<not> nonempty_string_field m ''type'' then e = QuestionTypeRequired i
           else (\<exists>os j. map_of m ''options'' = Some (JArr os) \<and> j < length os \<and>
                   (\<forall>n<j. valid_option (os ! n)) \<and> option_fault (os ! j) i j e))
      | _ \<Rightarrow> e = QuestionNotObject i)"

definition survey_fault :: "jobject \<Rightarrow> parse_error \<Rightarrow> bool" where
  "survey_fault r e =
     (if \<not> nonempty_string_field r ''name'' then e = SurveyNameRequired
      else case map_of r ''questions'' of
             Some (JArr qs) \<Rightarrow>
               if qs = [] then e = SurveyNoQuestions
               else (\<exists>i<length qs. (\<forall>n<i. valid_question (qs ! n)) \<and> question_fault (qs ! i) i e)
           | _ \<Rightarrow> e = SurveyNoQuestions)"

text \<open>An answer and a response record the decoder accepts: besides the question id, a
  \<^verbatim>\<open>selectedOptions\<close> entry must be an array of strings and a \<^verbatim>\<open>text\<close> entry a string,
  when they are there.\<close>

fun is_string :: "jvalue \<Rightarrow> bool" where
  "is_string (JStr s) = True"
| "is_string _ = False"

definition text_malformed :: "jobject \<Rightarrow> bool" where
  "text_malformed m = (case map_of m ''text'' of None \<Rightarrow> False | Some v \<Rightarrow> \<not> is_string v)"

fun valid_answer :: "jvalue \<Rightarrow> bool" where
  "valid_answer (JObj m) =
     (nonempty_string_field m ''questionId'' \<and>
      (case map_of m ''selectedOptions'' of
         None \<Rightarrow> True
       | Some (JArr xs) \<Rightarrow> list_all is_string xs
       | Some _ \<Rightarrow> False) \<and>
      \<not> text_malformed m)"
| "valid_answer _ = False"

definition has_subject_uri :: "jobject \<Rightarrow> bool" where
  "has_subject_uri r =
     (case map_of r ''subject'' of Some (JObj s) \<Rightarrow> nonempty_string_field s ''uri'' | _ \<Rightarrow> False)"

definition valid_response_record :: "jobject \<Rightarrow> bool" where
  "valid_response_record r =
     (has_subject_uri r \<and>
      (case map_of r ''answers'' of
         Some (JArr as) \<Rightarrow> as \<noteq> [] \<and> list_all valid_answer as
       | _ \<Rightarrow> False))"

text \<open>The weaker condition that asks of an answer its question id only.\<close>

fun claimed_valid_answer :: "jvalue \<Rightarrow> bool" where
  "claimed_valid_answer (JObj m) = nonempty_string_field m ''questionId''"
| "claimed_valid_answer _ = False"

definition claimed_valid_response_record :: "jobject \<Rightarrow> bool" where
  "claimed_valid_response_record r =
     (has_subject_uri r \<and>
      (case map_of r ''answers'' of
         Some (JArr as) \<Rightarrow> as \<noteq> [] \<and> list_all claimed_valid_answer as
       | _ \<Rightarrow> False))"

text \<open>The error that names the first field at fault in an answer and in a response
  record.\<close>

definition answer_fault :: "jvalue \<Rightarrow> nat \<Rightarrow> parse_error \<Rightarrow> bool" where
  "answer_fault v i e =
     (case v of
        JObj m \<Rightarrow>
          (if \<not> nonempty_string_field m ''questionId'' then e = AnswerQuestionIdRequired i
           else case map_of m ''selectedOptions'' of
                  None \<Rightarrow> text_malformed m \<and> e = AnswerTextNotString i
                | Some (JArr xs) \<Rightarrow>
                    if list_all is_string xs then text_malformed m \<and> e = AnswerTextNotString i
                    else (\<exists>j<length xs. (\<forall>n<j. is_string (xs ! n)) \<and> \<not> is_string (xs ! j) \<and>
                            e = SelectedOptionNotString i j)
                | Some _ \<Rightarrow> e = SelectedOptionsNotArray i)
      | _ \<Rightarrow> e = AnswerNotObject i)"

definition response_fault :: "jobject \<Rightarrow> parse_error \<Rightarrow> bool" where
  "response_fault r e =
     (case map_of r ''subject'' of
        Some (JObj s) \<Rightarrow>
          if \<not> nonempty_string_field s ''uri'' then e = SubjectUriRequired
          else (case map_of r ''answers'' of
                  Some (JArr as) \<Rightarrow>
                    if as = [] then e = AnswersRequired
                    else (\<exists>i<length as. (\<forall>n<i. valid_answer (as ! n)) \<and> answer_fault (as ! i) i e)
                | _ \<Rightarrow> e = AnswersRequired)
      | _ \<Rightarrow> e = SubjectRequired)"

text \<open>What an answer object gives: the strings of its \<^verbatim>\<open>selectedOptions\<close> array, its
  \<^verbatim>\<open>text\<close>, its question id.\<close>

definition strings_of :: "jvalue list \<Rightarrow> string list" where
  "strings_of xs = concat (map (\<lambda>v. case v of JStr s \<Rightarrow> [s] | _ \<Rightarrow> []) xs)"

definition selected_of :: "jobject \<Rightarrow> string list" where
  "selected_of m = (case map_of m ''selectedOptions'' of Some (JArr xs) \<Rightarrow> strings_of xs | _ \<Rightarrow> [])"

definition text_of :: "jobject \<Rightarrow> string" where
  "text_of m = (case map_of m ''text'' of Some (JStr t) \<Rightarrow> t | _ \<Rightarrow> [])"

definition question_id_of :: "jvalue \<Rightarrow> string option" where
  "question_id_of v = (case v of JObj m \<Rightarrow> required_string m ''questionId'' | _ \<Rightarrow> None)"

text \<open>The loops of the decoder have one shape: run a step over the elements with their
  indices, stop at the first error, fold the results into an accumulator. \<open>iterate\<close> is
  that shape, used to reason about the four loops at once; the step functions are the loop
  bodies.\<close>

definition selected_step :: "nat \<Rightarrow> jvalue \<Rightarrow> nat \<Rightarrow> parse_error + string" where
  "selected_step i v j = (case v of JStr s \<Rightarrow> Inr s | _ \<Rightarrow> Inl (SelectedOptionNotString i j))"

fun iterate :: "('x \<Rightarrow> nat \<Rightarrow> 'e + 'a) \<Rightarrow> ('s \<Rightarrow> 'a \<Rightarrow> 's) \<Rightarrow> 'x list \<Rightarrow> nat \<Rightarrow> 's \<Rightarrow> 'e + 's" where
  "iterate f g [] i s = Inr s"
| "iterate f g (x # xs) i s =
     (case f x i of Inl e \<Rightarrow> Inl e | Inr a \<Rightarrow> iterate f g xs (Suc i) (g s a))"

definition option_step :: "nat \<Rightarrow> jvalue \<Rightarrow> nat \<Rightarrow> parse_error + Option_rec" where
  "option_step i v j = (case v of JObj m \<Rightarrow> parseOption m i j | _ \<Rightarrow> Inl (OptionNotObject i j))"

definition question_step :: "jvalue \<Rightarrow> nat \<Rightarrow> parse_error + Question" where
  "question_step v i = (case v of JObj m \<Rightarrow> parseQuestion m i | _ \<Rightarrow> Inl (QuestionNotObject i))"

section \<open>Slugs\<close>

text \<open>
  \<open>GenerateSlugFromTitle\<close> of \<^verbatim>\<open>atproto.go\<close>. A Go string is a sequence of bytes, and so
  is a \<open>string\<close> here; \<^verbatim>\<open>len\<close> and \<^verbatim>\<open>slug[:50]\<close> count bytes. The class \<^verbatim>\<open>[a-z0-9]\<close> whose
  complement \<^verbatim>\<open>slugRegex\<close> matches:
\<close>

definition is_slug_char :: "char \<Rightarrow> bool" where
  "is_slug_char c =
     ((97 \<le> (of_char c :: nat) \<and> (of_char c :: nat) \<le> 122) \<or>
      (48 \<le> (of_char c :: nat) \<and> (of_char c :: nat) \<le> 57))"

text \<open>
  \<^verbatim>\<open>strings.ToLower\<close>. On the bytes below 0x80 it maps \<^verbatim>\<open>A\<close>..\<^verbatim>\<open>Z\<close> to \<^verbatim>\<open>a\<close>..\<^verbatim>\<open>z\<close>. Two
  runes above U+007F have a lower case below it: U+212A (Kelvin sign, bytes E2 84 AA) gives
  \<^verbatim>\<open>k\<close> and U+0130 (bytes C4 B0) gives \<^verbatim>\<open>i\<close>; neither first byte can continue another
  rune, so the byte pattern is the rune wherever it stands. The lower case of every other
  rune above U+007F, and the U+FFFD Go writes for a byte that is no UTF-8, is made of bytes
  from 0x80 on, all of which \<^verbatim>\<open>slugRegex\<close> replaces alike: the model leaves those bytes
  as they are, which changes no slug.
\<close>

definition ascii_lower :: "char \<Rightarrow> char" where
  "ascii_lower c =
     (if 65 \<le> (of_char c :: nat) \<and> (of_char c :: nat) \<le> 90
      then char_of (of_char c + 32 :: nat) else c)"

fun ToLower :: "string \<Rightarrow> string" where
  "ToLower (c1 # c2 # c3 # cs) =
     (if c1 = CHR 0xE2 \<and> c2 = CHR 0x84 \<and> c3 = CHR 0xAA then CHR ''k'' # ToLower cs
      else if c1 = CHR 0xC4 \<and> c2 = CHR 0xB0 then CHR ''i'' # ToLower (c3 # cs)
      else ascii_lower c1 # ToLower (c2 # c3 # cs))"
| "ToLower [c1, c2] =
     (if c1 = CHR 0xC4 \<and> c2 = CHR 0xB0 then [CHR ''i'']
      else [ascii_lower c1, ascii_lower c2])"
| "ToLower [c1] = [ascii_lower c1]"
| "ToLower [] = []"

text \<open>
  \<^verbatim>\<open>slugRegex.ReplaceAllString(slug, "-")\<close> for \<^verbatim>\<open>[^a-z0-9]+\<close>: scanning from the left, a
  byte of the class is copied, and a byte outside it starts a match that runs as far as
  bytes outside the class go and is replaced by one hyphen.
\<close>

function ReplaceAllString_slugRegex :: "string \<Rightarrow> string" where
  "ReplaceAllString_slugRegex [] = []"
| "ReplaceAllString_slugRegex (c # cs) =
     (if is_slug_char c then c # ReplaceAllString_slugRegex cs
      else CHR ''-'' # ReplaceAllString_slugRegex (dropWhile (\<lambda>x. \<not> is_slug_char x) cs))"
  by pat_completeness auto
termination
  by (relation "measure length") (auto simp: less_Suc_eq_le length_dropWhile_le)

text \<open>\<^verbatim>\<open>strings.Trim(slug, "-")\<close> and \<^verbatim>\<open>strings.TrimRight(slug, "-")\<close>.\<close>

definition TrimLeft :: "string \<Rightarrow> string" where
  "TrimLeft s = dropWhile (\<lambda>c. c = CHR ''-'') s"

definition TrimRight :: "string \<Rightarrow> string" where
  "TrimRight s = rev (dropWhile (\<lambda>c. c = CHR ''-'') (rev s))"

definition Trim :: "string \<Rightarrow> string" where
  "Trim s = TrimRight (TrimLeft s)"

definition GenerateSlugFromTitle :: "string \<Rightarrow> string" where
  "GenerateSlugFromTitle title =
     (let slug = ToLower title;
          slug = ReplaceAllString_slugRegex slug;
          slug = Trim slug;
          slug = (if length slug < 3 then ''survey-'' @ slug else slug);
          slug = (if length slug > 50 then TrimRight (take 50 slug) else slug)
      in slug)"


text \<open>The title lower-cased, with its runs replaced and its ends trimmed: what the two
  length tests of \<open>GenerateSlugFromTitle\<close> then work on.\<close>

definition normalized :: "string \<Rightarrow> string" where
  "normalized title = Trim (ReplaceAllString_slugRegex (ToLower title))"

text \<open>An ASCII letter or digit of the title.\<close>

definition ascii_alnum :: "char \<Rightarrow> bool" where
  "ascii_alnum c =
     ((48 \<le> (of_char c :: nat) \<and> (of_char c :: nat) \<le> 57) \<or>
      (65 \<le> (of_char c :: nat) \<and> (of_char c :: nat) \<le> 90) \<or>
      (97 \<le> (of_char c :: nat) \<and> (of_char c :: nat) \<le> 122))"

text \<open>Three titles of 60 characters; the last ends in the two bytes of an accented E.\<close>

definition title_topics :: string where
  "title_topics = ''Which topics should our next all hands meeting be on in 2026''"

definition title_question_marks :: string where
  "title_question_marks = ''????????????????????????????????????????????????????????????''"

definition title_accent :: string where
  "title_accent = ''AAAAAAAAAAAAAAAAAAAAAAAAAAAAAAAAAAAAAAAAAAAAAAAAAAAAAAAAAA'' @ [CHR 0xC3, CHR 0x89]"

section \<open>The cursor store\<close>

text \<open>
  \<open>GetCursor\<close> and \<open>UpdateCursor\<close> of package \<^verbatim>\<open>consumer\<close> run one SQL statement each on
  the table \<^verbatim>\<open>jetstream_cursor\<close>, through the database handle or a transaction. The table
  has the one row of id 1 or no row (its primary key and its check \<^verbatim>\<open>id = 1\<close>): a
  \<open>cursor_row option\<close>. \<^verbatim>\<open>time_us\<close> is an \<^verbatim>\<open>int64\<close> that the store only copies, so no
  arithmetic can overflow; \<open>now\<close> is what \<^verbatim>\<open>NOW()\<close> returns.
\<close>

record cursor_row =
  time_us :: int
  updated_at :: nat

type_synonym jetstream_cursor = "cursor_row option"

text \<open>What the driver may do to a statement: run it, fail it, or run it and then fail to
  report the number of rows.\<close>

datatype driver_fault = NoFault | ExecFails | RowsAffectedFails

text \<open>The errors of the two functions, in the order of the source: \<^verbatim>\<open>cursor row not found
  (id=1 should exist)\<close>, \<^verbatim>\<open>failed to get cursor\<close>, \<^verbatim>\<open>failed to update cursor\<close>, \<^verbatim>\<open>failed to
  get rows affected\<close>, \<^verbatim>\<open>cursor row not found (expected id=1)\<close>.\<close>

datatype cursor_error =
    CursorRowNotFound
  | GetCursorFailed
  | UpdateCursorFailed
  | RowsAffectedFailed
  | CursorRowMissing

definition GetCursor :: "driver_fault \<Rightarrow> jetstream_cursor \<Rightarrow> cursor_error + int" where
  "GetCursor fault tbl =
     (if fault = ExecFails then Inl GetCursorFailed
      else case tbl of
             None \<Rightarrow> Inl CursorRowNotFound
           | Some row \<Rightarrow> Inr (time_us row))"

text \<open>\<open>UpdateCursor\<close> returns its error, if any, and the table as the statement left it.\<close>

definition UpdateCursor ::
    "driver_fault \<Rightarrow> nat \<Rightarrow> jetstream_cursor \<Rightarrow> int \<Rightarrow> cursor_error option \<times> jetstream_cursor" where
  "UpdateCursor fault now tbl timeUs =
     (if fault = ExecFails then (Some UpdateCursorFailed, tbl)
      else
        let tbl' = map_option (\<lambda>row. row\<lparr>time_us := timeUs, updated_at := now\<rparr>) tbl;
            rows = (case tbl of None \<Rightarrow> 0 | Some row \<Rightarrow> (1::nat))
        in if fault = RowsAffectedFails then (Some RowsAffectedFailed, tbl')
           else if rows = 0 then (Some CursorRowMissing, tbl')
           else (None, tbl'))"

section \<open>The message processor\<close>

text \<open>
  The processor and the envelope of its events (\<^verbatim>\<open>processor.go\<close>, \<^verbatim>\<open>jetstream.go\<close>) are
  missing: this section follows the specification, on top of the decoder and the cursor
  store above. The README of the consumer agrees on the
  single transaction of message and cursor, and words two points otherwise: its error table
  has a message that fails processing or validation skipped with the cursor not updated,
  where section 4.3 of the specification commits the cursor advance with the no-op, and its
  feature list has a duplicate vote skipped, where section 4.3 has it replace the earlier
  one. The model takes the specification's side on both; what \<^verbatim>\<open>processor.go\<close> does there
  is not known.
\<close>

text \<open>Modelled from the spec: the collection of an event (section 3), with the unknown
  collections of section 4.3; the envelope type of \<^verbatim>\<open>jetstream.go\<close>
  is missing.\<close>

datatype collection = Survey | Response | Results | UnknownCollection string

text \<open>Modelled from the spec: the operation of an event (section 3); the envelope type is
  missing.\<close>

datatype operation = Create | Update | Delete

text \<open>Modelled from the spec: the StreamEvent of section 3, with the fields it lists; the
  envelope type of \<^verbatim>\<open>jetstream.go\<close> is missing.\<close>

record StreamEvent =
  collection :: collection
  operation :: operation
  repositoryID :: string
  recordKey :: string
  sequence :: int
  payload :: "jobject option"

text \<open>Modelled from the spec: the identity of a survey, its owning repository and record key
  (section 3); the storage schema is missing.\<close>

type_synonym survey_id = "string \<times> string"

text \<open>Modelled from the spec: the stored SurveyDefinition of section 3 with its derived slug;
  the storage schema is missing.\<close>

record survey_row =
  s_owner :: string
  s_recordKey :: string
  s_title :: string
  s_description :: string
  s_definition :: SurveyDefinition
  s_slug :: string

text \<open>Modelled from the spec: the stored Response of section 3, the voter, the survey and the
  answers, with the record key a Delete names it by; the storage schema is missing.\<close>

record response_row =
  r_voter :: string
  r_survey :: survey_id
  r_recordKey :: string
  r_answers :: "string \<rightharpoonup> Answer"

text \<open>Modelled from the spec: the relational store of section 3, its three tables with the
  cursor row of the cursor store; the storage schema is missing.\<close>

record store =
  surveys :: "survey_row list"
  responses :: "response_row list"
  results :: "survey_id list"
  cursor :: jetstream_cursor

text \<open>Modelled from the spec: the failures of applying an event (section 7);
  \<^verbatim>\<open>processor.go\<close> is missing.\<close>

datatype apply_error =
    PayloadMissing
  | DecodeFailed parse_error
  | Unauthorized
  | SurveyNotFound
  | SubjectUnresolved
  | StorageUnavailable
  | CursorWriteFailed cursor_error

text \<open>Modelled from the spec: the two kinds of failure of section 4.3;
  \<^verbatim>\<open>processor.go\<close> is missing. A storage failure and a failure of the
  cursor write are transient, every other failure is permanent.\<close>

fun permanent :: "apply_error \<Rightarrow> bool" where
  "permanent StorageUnavailable = False"
| "permanent (CursorWriteFailed e) = False"
| "permanent _ = True"

text \<open>Modelled from the spec: the decimal digits of the suffix \<^verbatim>\<open>-2\<close>,
  \<^verbatim>\<open>-3\<close>, ... of section 4.1; the slug reservation of
  \<^verbatim>\<open>processor.go\<close> is missing.\<close>

function decimal :: "nat \<Rightarrow> string" where
  "decimal n =
     (if n < 10 then [char_of (48 + n)] else decimal (n div 10) @ [char_of (48 + n mod 10)])"
  by pat_completeness auto
termination
  by (relation "measure id") auto

declare decimal.simps [simp del]

text \<open>Modelled from the spec: the collision policy of section 4.1 (the slug reservation of
  \<^verbatim>\<open>processor.go\<close> is missing): the slug itself when it is free, else
  the first free one among \<^verbatim>\<open>-2\<close>, \<^verbatim>\<open>-3\<close>, ...
  as many as there are slugs taken, plus one.\<close>

definition unique_slug :: "string list \<Rightarrow> string \<Rightarrow> string" where
  "unique_slug taken base =
     (if base \<notin> set taken then base
      else case find (\<lambda>n. base @ ''-'' @ decimal n \<notin> set taken) [2 ..< length taken + 3] of
             Some n \<Rightarrow> base @ ''-'' @ decimal n
           | None \<Rightarrow> base)"

text \<open>Modelled from the spec: the reference URI of a survey, resolved to the survey (sections 3
  and 4.3); the AT-URI of a record is
  \<^verbatim>\<open>at://repository/collection/key\<close>.\<close>

definition survey_uri :: "string \<Rightarrow> string \<Rightarrow> string" where
  "survey_uri repo rkey = ''at://'' @ repo @ ''/net.openmeet.survey/'' @ rkey"

text \<open>Modelled from the spec: the resolution of a \<^verbatim>\<open>subject.uri\<close> to the
  stored survey (section 4.3); the storage lookup is missing.\<close>

definition resolve :: "store \<Rightarrow> string \<Rightarrow> survey_id option" where
  "resolve st uri =
     map_option (\<lambda>s. (s_owner s, s_recordKey s))
       (find (\<lambda>s. survey_uri (s_owner s) (s_recordKey s) = uri) (surveys st))"

text \<open>Modelled from the spec: Survey Create, Update and Delete of section 4.3. Create decodes
  and inserts with a fresh slug, or repairs the survey the repository already has at the
  key; Update and Delete first check that the repository owns the survey at the key.\<close>

definition overwrite_survey :: "string \<Rightarrow> string \<Rightarrow> SurveyDefinition \<times> string \<times> string
    \<Rightarrow> survey_row \<Rightarrow> survey_row" where
  "overwrite_survey repo rkey decoded s =
     (case decoded of (def, title, description) \<Rightarrow>
        if s_owner s = repo \<and> s_recordKey s = rkey
        then s\<lparr>s_title := title, s_description := description, s_definition := def\<rparr>
        else s)"

text \<open>Modelled from the spec: the ownership lookup of section 6, whether the repository has a
  survey at the record key; the storage lookup is missing.\<close>

definition owns :: "store \<Rightarrow> string \<Rightarrow> string \<Rightarrow> bool" where
  "owns st repo rkey = (\<exists>s\<in>set (surveys st). s_owner s = repo \<and> s_recordKey s = rkey)"

text \<open>Modelled from the spec: the decoding step of Survey Create and Update (section 4.3),
  through \<open>ParseSurveyRecord\<close>; \<^verbatim>\<open>processor.go\<close> is
  missing. A Create or Update without a record body cannot be decoded.\<close>

definition decode_survey :: "jobject option \<Rightarrow> apply_error + (SurveyDefinition \<times> string \<times> string)" where
  "decode_survey p =
     (case p of
        None \<Rightarrow> Inl PayloadMissing
      | Some body \<Rightarrow>
          (case ParseSurveyRecord body of Inl e \<Rightarrow> Inl (DecodeFailed e) | Inr d \<Rightarrow> Inr d))"

text \<open>Modelled from the spec: Survey Create, Update and Delete of section 4.3;
  \<^verbatim>\<open>processor.go\<close> is missing.\<close>

definition apply_survey :: "StreamEvent \<Rightarrow> store \<Rightarrow> apply_error + store" where
  "apply_survey ev st =
     (let repo = repositoryID ev; rkey = recordKey ev in
      case operation ev of
        Create \<Rightarrow>
          (case decode_survey (payload ev) of
             Inl e \<Rightarrow> Inl e
           | Inr (def, title, description) \<Rightarrow>
               if owns st repo rkey
               then Inr (st\<lparr>surveys := map (overwrite_survey repo rkey (def, title, description)) (surveys st)\<rparr>)
               else Inr (st\<lparr>surveys := surveys st @
                      [\<lparr>s_owner = repo, s_recordKey = rkey, s_title = title,
                        s_description = description, s_definition = def,
                        s_slug = unique_slug (map s_slug (surveys st)) (GenerateSlugFromTitle title)\<rparr>]\<rparr>))
      | Update \<Rightarrow>
          if \<not> (\<exists>s\<in>set (surveys st). s_recordKey s = rkey) then Inl SurveyNotFound
          else if \<not> owns st repo rkey then Inl Unauthorized
          else (case decode_survey (payload ev) of
                  Inl e \<Rightarrow> Inl e
                | Inr decoded \<Rightarrow>
                    Inr (st\<lparr>surveys := map (overwrite_survey repo rkey decoded) (surveys st)\<rparr>))
      | Delete \<Rightarrow>
          if \<not> (\<exists>s\<in>set (surveys st). s_recordKey s = rkey) then Inr st
          else if \<not> owns st repo rkey then Inl Unauthorized
          else Inr (st\<lparr>surveys := filter (\<lambda>s. \<not> (s_owner s = repo \<and> s_recordKey s = rkey)) (surveys st)\<rparr>))"

text \<open>Modelled from the spec: Response Create, Update and Delete of section 4.3. The voter is
  the repository of the envelope; Create and Update upsert on (voter, survey), replacing the
  row of the pair when there is one; Delete removes the voter's row of that record key.\<close>

definition response_key :: "response_row \<Rightarrow> string \<times> survey_id" where
  "response_key r = (r_voter r, r_survey r)"

text \<open>Modelled from the spec: the upsert on (voter, survey) of section 4.3; the storage
  statement is missing. The row of the pair is replaced when there is one, and the row is
  added otherwise.\<close>

definition upsert_response :: "response_row \<Rightarrow> response_row list \<Rightarrow> response_row list" where
  "upsert_response row rows =
     (if response_key row \<in> set (map response_key rows)
      then map (\<lambda>r. if response_key r = response_key row then row else r) rows
      else rows @ [row])"

text \<open>Modelled from the spec: Response Create, Update and Delete of section 4.3;
  \<^verbatim>\<open>processor.go\<close> is missing.\<close>

definition apply_response :: "StreamEvent \<Rightarrow> store \<Rightarrow> apply_error + store" where
  "apply_response ev st =
     (let voter = repositoryID ev; rkey = recordKey ev in
      if operation ev = Delete
      then Inr (st\<lparr>responses := filter (\<lambda>r. \<not> (r_voter r = voter \<and> r_recordKey r = rkey)) (responses st)\<rparr>)
      else case payload ev of
             None \<Rightarrow> Inl PayloadMissing
           | Some body \<Rightarrow>
               (case ParseResponseRecord body of
                  Inl e \<Rightarrow> Inl (DecodeFailed e)
                | Inr (uri, answers) \<Rightarrow>
                    (case resolve st uri of
                       None \<Rightarrow> Inl SubjectUnresolved
                     | Some sid \<Rightarrow>
                         Inr (st\<lparr>responses := upsert_response
                                \<lparr>r_voter = voter, r_survey = sid, r_recordKey = rkey,
                                  r_answers = answers\<rparr> (responses st)\<rparr>))))"

text \<open>Modelled from the spec: Results Create of section 4.3, an existence-only marker on the
  resolved survey. The specification gives no Update or Delete of results; they change
  nothing here.\<close>

definition apply_results :: "StreamEvent \<Rightarrow> store \<Rightarrow> apply_error + store" where
  "apply_results ev st =
     (if operation ev \<noteq> Create then Inr st
      else case payload ev of
             None \<Rightarrow> Inl PayloadMissing
           | Some body \<Rightarrow>
               (case ParseResultsRecord body of
                  Inl e \<Rightarrow> Inl (DecodeFailed e)
                | Inr uri \<Rightarrow>
                    (case resolve st uri of
                       None \<Rightarrow> Inl SubjectUnresolved
                     | Some sid \<Rightarrow>
                         Inr (if sid \<in> set (results st) then st
                              else st\<lparr>results := results st @ [sid]\<rparr>))))"

text \<open>Modelled from the spec: the data mutation of one event, by collection; an unknown
  collection is ignored.\<close>

definition apply_event :: "StreamEvent \<Rightarrow> store \<Rightarrow> apply_error + store" where
  "apply_event ev st =
     (case collection ev of
        Survey \<Rightarrow> apply_survey ev st
      | Response \<Rightarrow> apply_response ev st
      | Results \<Rightarrow> apply_results ev st
      | UnknownCollection name \<Rightarrow> Inr st)"

text \<open>Modelled from the spec: the transactional scope of section 4.3. A transaction works on a
  copy of the store; committing makes the copy the store, rolling back drops it.\<close>

definition BeginTx :: "store \<Rightarrow> store" where
  "BeginTx db = db"

text \<open>Modelled from the spec: the commit of the transaction of an event (section 4.3); the
  storage layer is missing.\<close>

definition Commit :: "store \<Rightarrow> store \<Rightarrow> store" where
  "Commit db tx = tx"

text \<open>Modelled from the spec: the rollback of the transaction of an event (section 4.3); the
  storage layer is missing.\<close>

definition Rollback :: "store \<Rightarrow> store \<Rightarrow> store" where
  "Rollback db tx = db"

text \<open>Modelled from the spec: the cursor advance of section 4.3, within the transaction, through
  \<open>GetCursor\<close> and \<open>UpdateCursor\<close>. Monotonicity is the processor's
  duty (sections 3 and 4.2): the cursor moves to the sequence of the event unless it is
  already beyond.\<close>

definition advance_cursor :: "driver_fault \<Rightarrow> nat \<Rightarrow> int \<Rightarrow> store \<Rightarrow> cursor_error + store" where
  "advance_cursor fault now seq tx =
     (case GetCursor fault (cursor tx) of
        Inl e \<Rightarrow> Inl e
      | Inr current \<Rightarrow>
          (case UpdateCursor fault now (cursor tx) (max current seq) of
             (Some e, tbl) \<Rightarrow> Inl e
           | (None, tbl) \<Rightarrow> Inr (tx\<lparr>cursor := tbl\<rparr>)))"

text \<open>Modelled from the spec: \<^verbatim>\<open>apply(event) -> (applied, error)\<close> of
  section 4.3 with its atomicity invariant. \<open>storage_up\<close> says whether the
  storage takes the data mutation and \<open>fault\<close> what the driver does to the
  cursor statements. A transient failure rolls the transaction back; a permanent one is a
  no-op committed with the cursor advance; a success is committed with the cursor advance.\<close>

definition ProcessEvent ::
    "bool \<Rightarrow> driver_fault \<Rightarrow> nat \<Rightarrow> StreamEvent \<Rightarrow> store \<Rightarrow> (bool \<times> apply_error option) \<times> store" where
  "ProcessEvent storage_up fault now ev db =
     (let tx = BeginTx db in
      case (if storage_up then apply_event ev tx else Inl StorageUnavailable) of
        Inl e \<Rightarrow>
          if permanent e
          then (case advance_cursor fault now (sequence ev) tx of
                  Inl ce \<Rightarrow> ((False, Some (CursorWriteFailed ce)), Rollback db tx)
                | Inr tx' \<Rightarrow> ((False, Some e), Commit db tx'))
          else ((False, Some e), Rollback db tx)
      | Inr tx' \<Rightarrow>
          (case advance_cursor fault now (sequence ev) tx' of
             Inl ce \<Rightarrow> ((False, Some (CursorWriteFailed ce)), Rollback db tx')
           | Inr tx'' \<Rightarrow> ((True, None), Commit db tx'')))"



section \<open>The backoff of the stream client\<close>

text \<open>Modelled from the spec: the initial backoff of the reconnect loop of section 4.4, one
  second (section 8); \<^verbatim>\<open>RunWithReconnect\<close> of \<^verbatim>\<open>jetstream.go\<close> is missing. Intervals are in
  seconds.\<close>

definition initial_backoff :: nat where
  "initial_backoff = 1"

text \<open>Modelled from the spec: the cap of the backoff, on the order of one minute (section
  4.4); \<^verbatim>\<open>jetstream.go\<close> is missing.\<close>

definition max_backoff :: nat where
  "max_backoff = 60"

text \<open>Modelled from the spec: what ends a connection attempt (section 4.4);
  \<^verbatim>\<open>jetstream.go\<close> is missing. Either it fails (a connect or
  read error with no sustained streaming), or the client streams for a sustained period
  before the connection is lost.\<close>

datatype connection = Failure | SustainedStreaming

text \<open>Modelled from the spec: one turn of the reconnect loop on the current backoff
  (section 4.4); \<^verbatim>\<open>jetstream.go\<close> is missing. A failure waits
  the current backoff and doubles it up to the cap; sustained streaming resets it.\<close>

fun reconnect :: "nat \<Rightarrow> connection \<Rightarrow> nat option \<times> nat" where
  "reconnect backoff Failure = (Some backoff, min (2 * backoff) max_backoff)"
| "reconnect backoff SustainedStreaming = (None, initial_backoff)"

text \<open>Modelled from the spec: the wait intervals a history of connections produces, from a
  given backoff (section 8); \<^verbatim>\<open>jetstream.go\<close> is missing.\<close>

fun waits :: "nat \<Rightarrow> connection list \<Rightarrow> nat list" where
  "waits backoff [] = []"
| "waits backoff (c # cs) =
     (case reconnect backoff c of
        (Some w, backoff') \<Rightarrow> w # waits backoff' cs
      | (None, backoff') \<Rightarrow> waits backoff' cs)"

section \<open>Concrete records\<close>

definition survey_missing_text :: jobject where
  "survey_missing_text =
     [(''name'', JStr ''Coffee''),
      (''questions'', JArr
         [JObj [(''id'', JStr ''q1''), (''text'', JStr ''Like coffee?''), (''type'', JStr ''ns#single'')],
          JObj [(''id'', JStr ''q2''), (''type'', JStr ''ns#text'')]])]"

definition response_text_number :: jobject where
  "response_text_number =
     [(''subject'', JObj [(''uri'', JStr ''at://did:plc:a/net.openmeet.survey/1'')]),
      (''answers'', JArr [JObj [(''questionId'', JStr ''q1''), (''text'', JNum 5)]])]"

definition response_only_question_id :: jobject where
  "response_only_question_id =
     [(''subject'', JObj [(''uri'', JStr ''at://did:plc:a/net.openmeet.survey/1'')]),
      (''answers'', JArr [JObj [(''questionId'', JStr ''q1'')]])]"

definition response_duplicate :: jobject where
  "response_duplicate =
     [(''subject'', JObj [(''uri'', JStr ''at://did:plc:a/net.openmeet.survey/1'')]),
      (''answers'', JArr
         [JObj [(''questionId'', JStr ''q1''), (''selectedOptions'', JArr [JStr ''y''])],
          JObj [(''questionId'', JStr ''q1''), (''selectedOptions'', JArr [JStr ''n''])]])]"

definition survey_coffee :: jobject where
  "survey_coffee =
     [(''name'', JStr ''Coffee''),
      (''questions'', JArr
         [JObj [(''id'', JStr ''q1''), (''text'', JStr ''Like coffee?''),
                (''type'', JStr ''ns#single''), (''required'', JBool False),
                (''options'', JArr [JObj [(''id'', JStr ''y''), (''text'', JStr ''Yes'')]])]])]"

definition response_coffee :: jobject where
  "response_coffee =
     [(''subject'', JObj [(''uri'', JStr ''at://did:plc:owner/net.openmeet.survey/s1'')]),
      (''answers'', JArr [JObj [(''questionId'', JStr ''q1''), (''selectedOptions'', JArr [JStr ''y''])]])]"

definition response_selected_key :: jobject where
  "response_selected_key =
     [(''subject'', JObj [(''uri'', JStr ''at://did:plc:owner/net.openmeet.survey/s1'')]),
      (''voter'', JStr ''did:plc:mallory''),
      (''answers'', JArr
         [JObj [(''questionId'', JStr ''q1''), (''selected'', JArr [JStr ''n'']),
                (''selectedOptions'', JArr [JStr ''y''])],
          JObj [(''questionId'', JStr ''q2''), (''selected'', JArr [JStr ''n''])]])]"


definition store_one_survey :: store where
  "store_one_survey =
     \<lparr>surveys = [\<lparr>s_owner = ''did:plc:owner'', s_recordKey = ''s1'', s_title = ''Coffee'',
                  s_description = [], s_definition = \<lparr>Questions = [], Anonymous = False\<rparr>,
                  s_slug = ''coffee''\<rparr>],
      responses = [], results = [],
      cursor = Some \<lparr>time_us = 50, updated_at = 0\<rparr>\<rparr>"


definition event_vote :: "int \<Rightarrow> string \<Rightarrow> jobject \<Rightarrow> StreamEvent" where
  "event_vote seq rkey body =
     \<lparr>collection = Response, operation = Create, repositoryID = ''did:plc:voter'',
      recordKey = rkey, sequence = seq, payload = Some body\<rparr>"


section \<open>The loops of the decoder\<close>

lemma iterate_Inl:
  assumes "iterate f g xs i s = Inl e"
  shows "\<exists>k<length xs. (\<forall>n<k. \<exists>a. f (xs ! n) (i + n) = Inr a) \<and> f (xs ! k) (i + k) = Inl e"
  using assms
proof (induction xs arbitrary: i s)
  case Nil
  then show ?case by simp
next
  case (Cons x xs)
  show ?case
  proof (cases "f x i")
    case (Inl e')
    with Cons.prems have "e' = e" by simp
    with Inl show ?thesis by (intro exI[of _ 0]) simp
  next
    case (Inr a)
    with Cons.prems have "iterate f g xs (Suc i) (g s a) = Inl e" by simp
    from Cons.IH[OF this] obtain k where k: "k < length xs"
      "\<forall>n<k. \<exists>a. f (xs ! n) (Suc i + n) = Inr a" "f (xs ! k) (Suc i + k) = Inl e" by blast
    show ?thesis
    proof (intro exI[of _ "Suc k"] conjI allI impI)
      fix n assume "n < Suc k"
      then show "\<exists>a. f ((x # xs) ! n) (i + n) = Inr a" using Inr k(2) by (cases n) auto
    qed (use k in simp_all)
  qed
qed

lemma iterate_Inr_foldl:
  assumes "\<And>x k. x \<in> set xs \<Longrightarrow> f x k = Inr (h x)"
  shows "iterate f g xs i s = Inr (foldl g s (map h xs))"
  using assms by (induction xs arbitrary: i s) auto

lemma iterate_Inr_ex:
  assumes "\<forall>x\<in>set xs. \<forall>k. \<exists>a. f x k = Inr a"
  shows "\<exists>s'. iterate f g xs i s = Inr s'"
  using assms
proof (induction xs arbitrary: i s)
  case Nil
  show ?case by simp
next
  case (Cons x xs)
  from Cons.prems have "\<exists>a. f x i = Inr a" by simp
  then obtain a where "f x i = Inr a" ..
  with Cons.IH[of "Suc i" "g s a"] Cons.prems show ?case by simp
qed

lemma iterate_Inr_all:
  assumes "iterate f g xs i s = Inr s'"
  shows "\<forall>k<length xs. \<exists>a. f (xs ! k) (i + k) = Inr a"
  using assms
proof (induction xs arbitrary: i s)
  case Nil
  then show ?case by simp
next
  case (Cons x xs)
  then obtain a where a: "f x i = Inr a" "iterate f g xs (Suc i) (g s a) = Inr s'"
    by (auto split: sum.splits)
  from Cons.IH[OF a(2)] have IH: "\<forall>k<length xs. \<exists>b. f (xs ! k) (Suc i + k) = Inr b" .
  show ?case
  proof (intro allI impI)
    fix k assume "k < length (x # xs)"
    then show "\<exists>b. f ((x # xs) ! k) (i + k) = Inr b" using a(1) IH by (cases k) auto
  qed
qed

lemma parseOptions_iterate:
  "parseOptions os i j acc = iterate (option_step i) (\<lambda>acc opt. acc @ [opt]) os j acc"
  by (induction os arbitrary: j acc) (auto simp: option_step_def split: jvalue.splits sum.splits)

lemma parseQuestions_iterate:
  "parseQuestions qs i acc = iterate question_step (\<lambda>acc q. acc @ [q]) qs i acc"
  by (induction qs arbitrary: i acc) (auto simp: question_step_def split: jvalue.splits sum.splits)

lemma nonempty_string_field_iff:
  "nonempty_string_field m k \<longleftrightarrow> (\<exists>s. required_string m k = Some s)"
  by (auto simp: required_string_def nonempty_string_field_def
      split: option.splits jvalue.splits elim: as_string.elims)

lemma required_string_Some_iff:
  "required_string m k = Some s \<longleftrightarrow> map_of m k = Some (JStr s) \<and> s \<noteq> []"
  by (auto simp: required_string_def split: option.splits if_splits elim: as_string.elims)

lemma option_step_Inr_iff: "(\<exists>opt. option_step i v j = Inr opt) \<longleftrightarrow> valid_option v"
  by (cases v) (auto simp: option_step_def parseOption_def nonempty_string_field_iff split: option.splits)

lemma option_step_Inl: "option_step i v j = Inl e \<Longrightarrow> option_fault v i j e"
  by (cases v)
     (auto simp: option_step_def parseOption_def option_fault_def nonempty_string_field_iff
           split: option.splits)

lemma parseOptions_Inr_iff:
  "(\<exists>out. parseOptions os i j acc = Inr out) \<longleftrightarrow> list_all valid_option os"
proof
  assume "\<exists>out. parseOptions os i j acc = Inr out"
  then obtain out where "iterate (option_step i) (\<lambda>acc opt. acc @ [opt]) os j acc = Inr out"
    by (auto simp: parseOptions_iterate)
  from iterate_Inr_all[OF this] have "\<forall>k<length os. valid_option (os ! k)"
    using option_step_Inr_iff by blast
  then show "list_all valid_option os" by (simp add: list_all_length)
next
  assume "list_all valid_option os"
  then have "\<forall>v\<in>set os. \<forall>k. \<exists>opt. option_step i v k = Inr opt"
    using option_step_Inr_iff by (simp add: list_all_iff)
  from iterate_Inr_ex[OF this] show "\<exists>out. parseOptions os i j acc = Inr out"
    by (simp add: parseOptions_iterate)
qed

lemma parseOptions_Inl:
  assumes "parseOptions os i 0 acc = Inl e"
  shows "\<exists>j<length os. (\<forall>n<j. valid_option (os ! n)) \<and> option_fault (os ! j) i j e"
proof -
  from assms have "iterate (option_step i) (\<lambda>acc opt. acc @ [opt]) os 0 acc = Inl e"
    by (simp add: parseOptions_iterate)
  from iterate_Inl[OF this] show ?thesis
    using option_step_Inr_iff option_step_Inl by (metis add_0)
qed


lemma question_step_Inr_iff: "(\<exists>q. question_step v i = Inr q) \<longleftrightarrow> valid_question v"
proof (cases v)
  case (JObj m)
  have opts: "(\<exists>out. (case as_array (map_of m ''options'') of
                         Some optionsRaw \<Rightarrow> parseOptions optionsRaw i 0 []
                       | None \<Rightarrow> Inr []) = Inr out)
        \<longleftrightarrow> (case map_of m ''options'' of Some (JArr os) \<Rightarrow> list_all valid_option os | _ \<Rightarrow> True)"
    using parseOptions_Inr_iff[of _ i 0 "[]"]
    by (auto split: option.splits jvalue.splits elim!: as_array.elims)
  show ?thesis
    using opts unfolding JObj question_step_def parseQuestion_def
    by (auto simp: nonempty_string_field_iff Let_def split: option.splits sum.splits)
qed (simp_all add: question_step_def)

lemma question_step_Inl:
  assumes "question_step v i = Inl e"
  shows "question_fault v i e"
proof (cases v)
  case (JObj m)
  show ?thesis
  proof (cases "nonempty_string_field m ''id'' \<and> nonempty_string_field m ''text'' \<and>
                nonempty_string_field m ''type''")
    case False
    with assms show ?thesis unfolding JObj question_step_def parseQuestion_def question_fault_def
      by (auto simp: nonempty_string_field_iff split: option.splits)
  next
    case True
    with assms obtain os where os: "map_of m ''options'' = Some (JArr os)"
      "parseOptions os i 0 [] = Inl e"
      unfolding JObj question_step_def parseQuestion_def
      by (auto simp: nonempty_string_field_iff Let_def
               split: option.splits sum.splits elim!: as_array.elims)
    from parseOptions_Inl[OF os(2)] os(1) True show ?thesis
      unfolding JObj question_fault_def by auto
  qed
qed (use assms in \<open>simp_all add: question_step_def question_fault_def\<close>)

lemma parseQuestions_Inr_iff:
  "(\<exists>out. parseQuestions qs i acc = Inr out) \<longleftrightarrow> list_all valid_question qs"
proof
  assume "\<exists>out. parseQuestions qs i acc = Inr out"
  then obtain out where "iterate question_step (\<lambda>acc q. acc @ [q]) qs i acc = Inr out"
    by (auto simp: parseQuestions_iterate)
  from iterate_Inr_all[OF this] have "\<forall>k<length qs. valid_question (qs ! k)"
    using question_step_Inr_iff by blast
  then show "list_all valid_question qs" by (simp add: list_all_length)
next
  assume "list_all valid_question qs"
  then have "\<forall>v\<in>set qs. \<forall>k. \<exists>q. question_step v k = Inr q"
    using question_step_Inr_iff by (simp add: list_all_iff)
  from iterate_Inr_ex[OF this] show "\<exists>out. parseQuestions qs i acc = Inr out"
    by (simp add: parseQuestions_iterate)
qed

lemma parseQuestions_Inl:
  assumes "parseQuestions qs 0 acc = Inl e"
  shows "\<exists>i<length qs. (\<forall>n<i. valid_question (qs ! n)) \<and> question_fault (qs ! i) i e"
proof -
  from assms have "iterate question_step (\<lambda>acc q. acc @ [q]) qs 0 acc = Inl e"
    by (simp add: parseQuestions_iterate)
  from iterate_Inl[OF this] show ?thesis
    using question_step_Inr_iff question_step_Inl by (metis add_0)
qed

lemma ParseSurveyRecord_succeeds_iff:
  "(\<exists>out. ParseSurveyRecord r = Inr out) \<longleftrightarrow> valid_survey_record r"
proof (cases "nonempty_string_field r ''name''")
  case False
  then show ?thesis
    by (auto simp: ParseSurveyRecord_def valid_survey_record_def nonempty_string_field_iff)
next
  case True
  then obtain name where name: "required_string r ''name'' = Some name"
    by (auto simp: nonempty_string_field_iff)
  show ?thesis
  proof (cases "\<exists>qs. map_of r ''questions'' = Some (JArr qs) \<and> qs \<noteq> []")
    case False
    then show ?thesis using name
      by (auto simp: ParseSurveyRecord_def valid_survey_record_def Let_def
               split: option.splits jvalue.splits elim!: as_array.elims)
  next
    case True
    then obtain qs where qs: "map_of r ''questions'' = Some (JArr qs)" "qs \<noteq> []" by blast
    have "(\<exists>out. ParseSurveyRecord r = Inr out) \<longleftrightarrow> (\<exists>out. parseQuestions qs 0 [] = Inr out)"
      using name qs by (auto simp: ParseSurveyRecord_def Let_def split: sum.splits)
    also have "\<dots> \<longleftrightarrow> list_all valid_question qs" by (rule parseQuestions_Inr_iff)
    also have "\<dots> \<longleftrightarrow> valid_survey_record r"
      using qs \<open>nonempty_string_field r ''name''\<close> by (simp add: valid_survey_record_def)
    finally show ?thesis .
  qed
qed

lemma ParseSurveyRecord_Inl:
  assumes "ParseSurveyRecord r = Inl e"
  shows "survey_fault r e"
proof (cases "nonempty_string_field r ''name''")
  case False
  with assms show ?thesis
    by (auto simp: ParseSurveyRecord_def survey_fault_def nonempty_string_field_iff)
next
  case True
  then obtain name where name: "required_string r ''name'' = Some name"
    by (auto simp: nonempty_string_field_iff)
  show ?thesis
  proof (cases "\<exists>qs. map_of r ''questions'' = Some (JArr qs) \<and> qs \<noteq> []")
    case False
    then show ?thesis using name assms True
      by (auto simp: ParseSurveyRecord_def survey_fault_def Let_def
               split: option.splits jvalue.splits if_splits elim!: as_array.elims)
  next
    case qsE: True
    then obtain qs where qs: "map_of r ''questions'' = Some (JArr qs)" "qs \<noteq> []" by blast
    from assms name qs have "parseQuestions qs 0 [] = Inl e"
      by (auto simp: ParseSurveyRecord_def Let_def split: sum.splits)
    from parseQuestions_Inl[OF this] show ?thesis
      using qs True by (simp add: survey_fault_def)
  qed
qed


lemma parseSelected_iterate:
  "parseSelected xs i j acc = iterate (selected_step i) (\<lambda>acc s. acc @ [s]) xs j acc"
  by (induction xs arbitrary: j acc) (auto simp: selected_step_def split: jvalue.splits)

lemma selected_step_Inr_iff: "(\<exists>a. selected_step i v j = Inr a) \<longleftrightarrow> is_string v"
  by (cases v) (simp_all add: selected_step_def)

lemma selected_step_Inl:
  "selected_step i v j = Inl e \<longleftrightarrow> \<not> is_string v \<and> e = SelectedOptionNotString i j"
  by (cases v) (auto simp: selected_step_def)

lemma parseSelected_Inr:
  "list_all is_string xs \<Longrightarrow> parseSelected xs i j acc = Inr (acc @ strings_of xs)"
proof (induction xs arbitrary: j acc)
  case Nil
  show ?case by (simp add: strings_of_def)
next
  case (Cons v xs)
  then obtain s where "v = JStr s" by (cases v) auto
  with Cons show ?case by (simp add: strings_of_def)
qed

lemma parseSelected_Inr_iff:
  "(\<exists>out. parseSelected xs i j acc = Inr out) \<longleftrightarrow> list_all is_string xs"
proof
  assume "\<exists>out. parseSelected xs i j acc = Inr out"
  then obtain out where "iterate (selected_step i) (\<lambda>acc s. acc @ [s]) xs j acc = Inr out"
    by (auto simp: parseSelected_iterate)
  from iterate_Inr_all[OF this] have "\<forall>k<length xs. is_string (xs ! k)"
    by (simp add: selected_step_Inr_iff)
  then show "list_all is_string xs" by (simp add: list_all_length)
qed (simp add: parseSelected_Inr)

lemma parseSelected_Inl:
  assumes "parseSelected xs i 0 acc = Inl e"
  shows "\<exists>j<length xs. (\<forall>n<j. is_string (xs ! n)) \<and> \<not> is_string (xs ! j) \<and>
           e = SelectedOptionNotString i j"
proof -
  from assms have "iterate (selected_step i) (\<lambda>acc s. acc @ [s]) xs 0 acc = Inl e"
    by (simp add: parseSelected_iterate)
  from iterate_Inl[OF this] obtain k where k: "k < length xs"
    "\<forall>n<k. \<exists>a. selected_step i (xs ! n) (0 + n) = Inr a" "selected_step i (xs ! k) (0 + k) = Inl e"
    by blast
  from k(2) have "\<forall>n<k. is_string (xs ! n)"
    by (simp add: selected_step_Inr_iff)
  moreover from k(3) have "\<not> is_string (xs ! k) \<and> e = SelectedOptionNotString i k"
    by (simp add: selected_step_Inl)
  ultimately show ?thesis using k(1) by blast
qed

lemma parseAnswer_valid:
  assumes "valid_answer (JObj m)"
  shows "\<exists>q. required_string m ''questionId'' = Some q \<and>
             parseAnswer (JObj m) i = Inr (q, \<lparr>SelectedOptions = selected_of m, Text = text_of m\<rparr>)"
proof -
  from assms obtain q where q: "required_string m ''questionId'' = Some q"
    by (auto simp: nonempty_string_field_iff)
  have sel: "(case map_of m ''selectedOptions'' of
                None \<Rightarrow> Inr []
              | Some selectedRaw \<Rightarrow>
                  (case selectedRaw of
                     JArr selectedArr \<Rightarrow> parseSelected selectedArr i 0 []
                   | _ \<Rightarrow> Inl (SelectedOptionsNotArray i))) = Inr (selected_of m)"
    using assms by (auto simp: selected_of_def parseSelected_Inr split: option.splits jvalue.splits)
  from assms have "\<not> text_malformed m" by simp
  then show ?thesis
    using q unfolding parseAnswer_def jvalue.case q option.case sel sum.case
    by (cases "map_of m ''text''")
       (auto simp: text_of_def text_malformed_def split: jvalue.splits)
qed

lemma parseAnswer_Inr_iff: "(\<exists>p. parseAnswer v i = Inr p) \<longleftrightarrow> valid_answer v"
proof
  assume "valid_answer v"
  then obtain m where "v = JObj m" by (cases v) auto
  with \<open>valid_answer v\<close> parseAnswer_valid[of m i] show "\<exists>p. parseAnswer v i = Inr p" by auto
next
  assume "\<exists>p. parseAnswer v i = Inr p"
  then obtain p where p: "parseAnswer v i = Inr p" ..
  then obtain m where v: "v = JObj m" by (cases v) (auto simp: parseAnswer_def)
  from p have "nonempty_string_field m ''questionId''"
    unfolding v parseAnswer_def by (auto simp: nonempty_string_field_iff split: option.splits)
  moreover from p have "case map_of m ''selectedOptions'' of
         None \<Rightarrow> True | Some (JArr xs) \<Rightarrow> list_all is_string xs | Some _ \<Rightarrow> False"
    unfolding v parseAnswer_def
    using parseSelected_Inr_iff[of _ i 0 "[]"]
    by (auto split: option.splits jvalue.splits sum.splits)
  moreover from p have "\<not> text_malformed m"
    unfolding v parseAnswer_def
    by (auto simp: text_malformed_def split: option.splits jvalue.splits sum.splits)
  ultimately show "valid_answer v" by (simp add: v)
qed

lemma parseAnswer_Inl:
  assumes "parseAnswer v i = Inl e"
  shows "answer_fault v i e"
proof (cases v)
  case (JObj m)
  show ?thesis
  proof (cases "nonempty_string_field m ''questionId''")
    case False
    with assms show ?thesis unfolding JObj parseAnswer_def answer_fault_def
      by (auto simp: nonempty_string_field_iff split: option.splits)
  next
    case True
    then obtain q where q: "required_string m ''questionId'' = Some q"
      by (auto simp: nonempty_string_field_iff)
    have tfail: "text_malformed m \<and> e = AnswerTextNotString i"
      if "(case map_of m ''text'' of
             None \<Rightarrow> Inr (q, \<lparr>SelectedOptions = sel, Text = []\<rparr>)
           | Some textRaw \<Rightarrow>
               (case textRaw of
                  JStr textStr \<Rightarrow> Inr (q, \<lparr>SelectedOptions = sel, Text = textStr\<rparr>)
                | _ \<Rightarrow> Inl (AnswerTextNotString i))) = Inl e" for sel
      using that by (auto simp: text_malformed_def split: option.splits jvalue.splits)
    show ?thesis
    proof (cases "map_of m ''selectedOptions''")
      case None
      with assms q tfail[of "[]"] True show ?thesis
        unfolding JObj parseAnswer_def answer_fault_def by simp
    next
      case (Some sv)
      show ?thesis
      proof (cases sv)
        case (JArr xs)
        show ?thesis
        proof (cases "parseSelected xs i 0 []")
          case (Inl e')
          with assms q Some JArr have "e' = e" unfolding JObj parseAnswer_def by simp
          with Inl parseSelected_Inl[of xs i "[]" e] parseSelected_Inr_iff[of xs i 0 "[]"]
          show ?thesis using True Some JArr unfolding JObj answer_fault_def by auto
        next
          case (Inr sel)
          with assms q Some JArr tfail[of sel] parseSelected_Inr_iff[of xs i 0 "[]"]
          show ?thesis using True unfolding JObj parseAnswer_def answer_fault_def by auto
        qed
      qed (use assms q Some True in \<open>auto simp: JObj parseAnswer_def answer_fault_def\<close>)
    qed
  qed
qed (use assms in \<open>simp_all add: parseAnswer_def answer_fault_def\<close>)

lemma parseAnswers_iterate:
  "parseAnswers xs i m = iterate parseAnswer (\<lambda>m (q, a). m(q \<mapsto> a)) xs i m"
  by (induction xs arbitrary: i m) (auto split: sum.splits)

lemma parseAnswers_Inr_iff:
  "(\<exists>out. parseAnswers xs i m = Inr out) \<longleftrightarrow> list_all valid_answer xs"
proof
  assume "\<exists>out. parseAnswers xs i m = Inr out"
  then obtain out where "iterate parseAnswer (\<lambda>m (q, a). m(q \<mapsto> a)) xs i m = Inr out"
    by (auto simp: parseAnswers_iterate)
  from iterate_Inr_all[OF this] have "\<forall>k<length xs. valid_answer (xs ! k)"
    using parseAnswer_Inr_iff by blast
  then show "list_all valid_answer xs" by (simp add: list_all_length)
next
  assume "list_all valid_answer xs"
  then have "\<forall>v\<in>set xs. \<forall>k. \<exists>p. parseAnswer v k = Inr p"
    using parseAnswer_Inr_iff by (simp add: list_all_iff)
  from iterate_Inr_ex[OF this] show "\<exists>out. parseAnswers xs i m = Inr out"
    by (simp add: parseAnswers_iterate)
qed

lemma parseAnswers_Inl:
  assumes "parseAnswers xs 0 m = Inl e"
  shows "\<exists>i<length xs. (\<forall>n<i. valid_answer (xs ! n)) \<and> answer_fault (xs ! i) i e"
proof -
  from assms have "iterate parseAnswer (\<lambda>m (q, a). m(q \<mapsto> a)) xs 0 m = Inl e"
    by (simp add: parseAnswers_iterate)
  from iterate_Inl[OF this] show ?thesis
    using parseAnswer_Inr_iff parseAnswer_Inl by (metis add_0)
qed


lemma ParseResponseRecord_succeeds_iff:
  "(\<exists>out. ParseResponseRecord r = Inr out) \<longleftrightarrow> valid_response_record r"
proof (cases "has_subject_uri r")
  case False
  then show ?thesis
    by (auto simp: ParseResponseRecord_def valid_response_record_def has_subject_uri_def
                   nonempty_string_field_iff
             split: option.splits jvalue.splits elim!: as_object.elims)
next
  case True
  then obtain sub uri where sub: "as_object (map_of r ''subject'') = Some sub"
      "required_string sub ''uri'' = Some uri"
    by (auto simp: has_subject_uri_def nonempty_string_field_iff split: option.splits jvalue.splits)
  show ?thesis
  proof (cases "\<exists>xs. map_of r ''answers'' = Some (JArr xs) \<and> xs \<noteq> []")
    case False
    then show ?thesis using sub
      by (auto simp: ParseResponseRecord_def valid_response_record_def
               split: option.splits jvalue.splits elim!: as_array.elims)
  next
    case xsE: True
    then obtain xs where xs: "map_of r ''answers'' = Some (JArr xs)" "xs \<noteq> []" by blast
    have "(\<exists>out. ParseResponseRecord r = Inr out) \<longleftrightarrow> (\<exists>out. parseAnswers xs 0 Map.empty = Inr out)"
      using sub xs by (auto simp: ParseResponseRecord_def split: sum.splits)
    also have "\<dots> \<longleftrightarrow> list_all valid_answer xs" by (rule parseAnswers_Inr_iff)
    also have "\<dots> \<longleftrightarrow> valid_response_record r"
      using xs True by (simp add: valid_response_record_def)
    finally show ?thesis .
  qed
qed

lemma ParseResponseRecord_Inl:
  assumes "ParseResponseRecord r = Inl e"
  shows "response_fault r e"
proof (cases "as_object (map_of r ''subject'')")
  case None
  with assms show ?thesis
    by (auto simp: ParseResponseRecord_def response_fault_def
             split: option.splits jvalue.splits elim!: as_object.elims)
next
  case (Some sub)
  then have subj: "map_of r ''subject'' = Some (JObj sub)" by (auto elim: as_object.elims)
  show ?thesis
  proof (cases "required_string sub ''uri''")
    case None
    with assms Some subj show ?thesis
      by (simp add: ParseResponseRecord_def response_fault_def nonempty_string_field_iff)
  next
    case uri: (Some uri)
    then have ok: "nonempty_string_field sub ''uri''" by (auto simp: nonempty_string_field_iff)
    show ?thesis
    proof (cases "\<exists>xs. map_of r ''answers'' = Some (JArr xs) \<and> xs \<noteq> []")
      case False
      with assms Some uri subj ok show ?thesis
        by (auto simp: ParseResponseRecord_def response_fault_def
                 split: option.splits jvalue.splits if_splits elim!: as_array.elims)
    next
      case True
      then obtain xs where xs: "map_of r ''answers'' = Some (JArr xs)" "xs \<noteq> []" by blast
      from assms Some uri xs have "parseAnswers xs 0 Map.empty = Inl e"
        by (auto simp: ParseResponseRecord_def split: sum.splits)
      from parseAnswers_Inl[OF this] show ?thesis
        using xs subj ok by (simp add: response_fault_def)
    qed
  qed
qed

lemma ParseResponseRecord_Inr_answers:
  assumes "ParseResponseRecord r = Inr (uri, answers)"
  shows "\<exists>xs. map_of r ''answers'' = Some (JArr xs) \<and> parseAnswers xs 0 Map.empty = Inr answers"
  using assms
  by (auto simp: ParseResponseRecord_def split: option.splits sum.splits if_splits
           elim!: as_array.elims)

lemma parseAnswer_InrD:
  assumes "parseAnswer v i = Inr (q, a)"
  shows "\<exists>obj. v = JObj obj \<and> required_string obj ''questionId'' = Some q \<and>
               a = \<lparr>SelectedOptions = selected_of obj, Text = text_of obj\<rparr>"
proof -
  from assms parseAnswer_Inr_iff[of v i] have ok: "valid_answer v" by auto
  then obtain obj where v: "v = JObj obj" by (cases v) auto
  with ok parseAnswer_valid[of obj i] assms show ?thesis by auto
qed

lemma parseAnswers_other:
  assumes "parseAnswers xs i m = Inr m'" and "\<forall>x\<in>set xs. question_id_of x \<noteq> Some q"
  shows "m' q = m q"
  using assms
proof (induction xs arbitrary: i m)
  case Nil
  then show ?case by simp
next
  case (Cons x xs)
  from Cons.prems(1) obtain q' a where step: "parseAnswer x i = Inr (q', a)"
      and rest: "parseAnswers xs (Suc i) (m(q' \<mapsto> a)) = Inr m'"
    by (auto split: sum.splits)
  from parseAnswer_InrD[OF step] Cons.prems(2) have "q' \<noteq> q"
    by (auto simp: question_id_of_def)
  with Cons.IH[OF rest] Cons.prems(2) show ?case by simp
qed

lemma parseAnswers_last:
  assumes "parseAnswers xs i m = Inr m'" and "j < length xs" and "xs ! j = JObj obj"
    and "required_string obj ''questionId'' = Some q"
    and "\<forall>k. j < k \<and> k < length xs \<longrightarrow> question_id_of (xs ! k) \<noteq> Some q"
  shows "m' q = Some \<lparr>SelectedOptions = selected_of obj, Text = text_of obj\<rparr>"
  using assms
proof (induction xs arbitrary: i m j)
  case Nil
  then show ?case by simp
next
  case (Cons x xs)
  from Cons.prems(1) obtain q' a where step: "parseAnswer x i = Inr (q', a)"
      and rest: "parseAnswers xs (Suc i) (m(q' \<mapsto> a)) = Inr m'"
    by (auto split: sum.splits)
  show ?case
  proof (cases j)
    case 0
    with Cons.prems(3) have x: "x = JObj obj" by simp
    from parseAnswer_InrD[OF step] x Cons.prems(4)
    have qa: "q' = q" "a = \<lparr>SelectedOptions = selected_of obj, Text = text_of obj\<rparr>" by auto
    have "\<forall>y\<in>set xs. question_id_of y \<noteq> Some q"
    proof
      fix y assume "y \<in> set xs"
      then obtain n where n: "n < length xs" "xs ! n = y" by (auto simp: in_set_conv_nth)
      with Cons.prems(5)[rule_format, of "Suc n"] 0 show "question_id_of y \<noteq> Some q" by simp
    qed
    from parseAnswers_other[OF rest this] qa show ?thesis by simp
  next
    case (Suc j')
    have "\<forall>k. j' < k \<and> k < length xs \<longrightarrow> question_id_of (xs ! k) \<noteq> Some q"
    proof (intro allI impI)
      fix k assume "j' < k \<and> k < length xs"
      with Cons.prems(5)[rule_format, of "Suc k"] Suc show "question_id_of (xs ! k) \<noteq> Some q"
        by simp
    qed
    with Cons.IH[OF rest, of j'] Cons.prems(2,3,4) Suc show ?thesis by simp
  qed
qed

lemma parseAnswers_lookup:
  assumes "parseAnswers xs i m = Inr m'" and "m' q = Some a"
  shows "m q = Some a \<or>
         (\<exists>obj. JObj obj \<in> set xs \<and> required_string obj ''questionId'' = Some q \<and>
                a = \<lparr>SelectedOptions = selected_of obj, Text = text_of obj\<rparr>)"
  using assms
proof (induction xs arbitrary: i m)
  case Nil
  then show ?case by simp
next
  case (Cons x xs)
  from Cons.prems(1) obtain q' a' where step: "parseAnswer x i = Inr (q', a')"
      and rest: "parseAnswers xs (Suc i) (m(q' \<mapsto> a')) = Inr m'"
    by (auto split: sum.splits)
  from Cons.IH[OF rest Cons.prems(2)] parseAnswer_InrD[OF step] show ?case
    by (auto split: if_splits)
qed

lemma split_hash_nonempty: "split_hash s \<noteq> []"
  by (induction s) (auto split: list.splits)

lemma split_hash_no_hash: "CHR ''#'' \<notin> set s \<Longrightarrow> split_hash s = [s]"
  by (induction s) auto

lemma split_hash_append:
  "split_hash (p @ CHR ''#'' # s) = split_hash p @ split_hash s"
proof (induction p)
  case Nil
  show ?case by simp
next
  case (Cons c p)
  obtain x xs where "split_hash p = x # xs" using split_hash_nonempty[of p] by (cases "split_hash p") auto
  with Cons show ?case by simp
qed

lemma stripTokenPrefix_segment:
  assumes "CHR ''#'' \<notin> set segment"
  shows "stripTokenPrefix (prefix @ ''#'' @ segment) = segment"
proof -
  have parts: "split_hash (prefix @ ''#'' @ segment) = split_hash prefix @ [segment]"
    using split_hash_append[of prefix segment] split_hash_no_hash[OF assms] by simp
  have "length (split_hash prefix) > 0" using split_hash_nonempty[of prefix] by simp
  then show ?thesis unfolding stripTokenPrefix_def parts by (simp add: nth_append)
qed

lemma stripTokenPrefix_plain:
  "CHR ''#'' \<notin> set t \<Longrightarrow> stripTokenPrefix t = t"
  by (simp add: stripTokenPrefix_def split_hash_no_hash)

lemma parseAnswers_dom:
  assumes "parseAnswers xs i m = Inr m'"
  shows "dom m' = dom m \<union> {q. \<exists>x\<in>set xs. question_id_of x = Some q}"
  using assms
proof (induction xs arbitrary: i m)
  case Nil
  then show ?case by simp
next
  case (Cons x xs)
  from Cons.prems(1) obtain q' a where step: "parseAnswer x i = Inr (q', a)"
      and rest: "parseAnswers xs (Suc i) (m(q' \<mapsto> a)) = Inr m'"
    by (auto split: sum.splits)
  from parseAnswer_InrD[OF step] have "question_id_of x = Some q'"
    by (auto simp: question_id_of_def)
  with Cons.IH[OF rest] show ?case by (auto split: if_splits)
qed

subsection \<open>Which fields the decoder reads\<close>

lemma ParseSurveyRecord_name:
  assumes "ParseSurveyRecord record = Inr (d, title, desc)"
  shows "map_of record ''name'' = Some (JStr title)"
  using assms
  by (auto simp: ParseSurveyRecord_def Let_def required_string_Some_iff
           split: option.splits sum.splits if_splits)

lemma ParseSurveyRecord_ignores_title:
  "ParseSurveyRecord ((''title'', v) # record) = ParseSurveyRecord record"
proof -
  have *: "map_of ((''title'', v) # record) ''name'' = map_of record ''name''"
    "map_of ((''title'', v) # record) ''description'' = map_of record ''description''"
    "map_of ((''title'', v) # record) ''anonymous'' = map_of record ''anonymous''"
    "map_of ((''title'', v) # record) ''questions'' = map_of record ''questions''"
    by simp_all
  show ?thesis unfolding ParseSurveyRecord_def required_string_def * by (rule refl)
qed

lemma parseAnswer_ignores_selected:
  "parseAnswer (JObj ((''selected'', v) # ansObj)) i = parseAnswer (JObj ansObj) i"
proof -
  have *: "map_of ((''selected'', v) # ansObj) ''questionId'' = map_of ansObj ''questionId''"
    "map_of ((''selected'', v) # ansObj) ''selectedOptions'' = map_of ansObj ''selectedOptions''"
    "map_of ((''selected'', v) # ansObj) ''text'' = map_of ansObj ''text''"
    by simp_all
  show ?thesis unfolding parseAnswer_def required_string_def jvalue.case * by (rule refl)
qed

lemma parseAnswer_selected:
  assumes "parseAnswer (JObj ansObj) i = Inr (q, a)"
  shows "SelectedOptions a = selected_of ansObj"
  using parseAnswer_InrD[OF assms] by auto

lemma parseQuestion_type:
  assumes "CHR ''#'' \<notin> set segment"
    and "map_of qObj ''type'' = Some (JStr (prefix @ ''#'' @ segment))"
    and "parseQuestion qObj i = Inr qu"
  shows "q_Type qu = segment"
proof -
  have "required_string qObj ''type'' = Some (prefix @ ''#'' @ segment)"
    using assms(2) by (simp add: required_string_def)
  with assms(3) have "q_Type qu = stripTokenPrefix (prefix @ ''#'' @ segment)"
    by (auto simp: parseQuestion_def Let_def split: option.splits sum.splits)
  with stripTokenPrefix_segment[OF assms(1)] show ?thesis by simp
qed

lemma parseAnswer_reads:
  assumes "map_of m1 ''questionId'' = map_of m2 ''questionId''"
    and "map_of m1 ''selectedOptions'' = map_of m2 ''selectedOptions''"
    and "map_of m1 ''text'' = map_of m2 ''text''"
  shows "parseAnswer (JObj m1) i = parseAnswer (JObj m2) i"
  unfolding parseAnswer_def required_string_def jvalue.case assms by (rule refl)

lemma ParseResponseRecord_reads:
  assumes "map_of r1 ''subject'' = map_of r2 ''subject''"
    and "map_of r1 ''answers'' = map_of r2 ''answers''"
  shows "ParseResponseRecord r1 = ParseResponseRecord r2"
  unfolding ParseResponseRecord_def assms by (rule refl)

subsection \<open>The decoder on the concrete records\<close>

lemma ParseSurveyRecord_survey_missing_text:
  "ParseSurveyRecord survey_missing_text = Inl (QuestionTextRequired 1)"
  by (simp add: survey_missing_text_def ParseSurveyRecord_def required_string_def
        parseQuestion_def stripTokenPrefix_def)

lemma ParseResponseRecord_response_text_number:
  "ParseResponseRecord response_text_number = Inl (AnswerTextNotString 0)"
  by (simp add: response_text_number_def ParseResponseRecord_def required_string_def
        parseAnswer_def)

lemma ParseResponseRecord_response_duplicate:
  "ParseResponseRecord response_duplicate =
     Inr (''at://did:plc:a/net.openmeet.survey/1'',
          [''q1'' \<mapsto> \<lparr>SelectedOptions = [''n''], Text = []\<rparr>])"
  by (simp add: response_duplicate_def ParseResponseRecord_def required_string_def
        parseAnswer_def)

lemma ParseSurveyRecord_survey_coffee:
  "ParseSurveyRecord survey_coffee =
     Inr (\<lparr>Questions = [\<lparr>q_ID = ''q1'', q_Text = ''Like coffee?'', q_Type = ''single'',
                          q_Required = False,
                          q_Options = [\<lparr>opt_ID = ''y'', opt_Text = ''Yes''\<rparr>]\<rparr>],
           Anonymous = False\<rparr>, ''Coffee'', [])"
  by (simp add: survey_coffee_def ParseSurveyRecord_def required_string_def
        parseQuestion_def parseOption_def stripTokenPrefix_def)


subsection \<open>The decoded record as a whole\<close>

lemma iterate_append_result:
  assumes "iterate f (\<lambda>acc x. acc @ [x]) xs i acc = Inr out"
  shows "\<exists>ys. out = acc @ ys \<and> length ys = length xs \<and>
              (\<forall>k<length xs. f (xs ! k) (i + k) = Inr (ys ! k))"
  using assms
proof (induction xs arbitrary: i acc)
  case Nil
  then show ?case by simp
next
  case (Cons x xs)
  from Cons.prems obtain a where a: "f x i = Inr a"
      and rest: "iterate f (\<lambda>acc x. acc @ [x]) xs (Suc i) (acc @ [a]) = Inr out"
    by (auto split: sum.splits)
  from Cons.IH[OF rest] obtain ys where ys: "out = (acc @ [a]) @ ys" "length ys = length xs"
      "\<forall>k<length xs. f (xs ! k) (Suc i + k) = Inr (ys ! k)" by blast
  have "\<forall>k<length (x # xs). f ((x # xs) ! k) (i + k) = Inr ((a # ys) ! k)"
  proof (intro allI impI)
    fix k assume "k < length (x # xs)"
    then show "f ((x # xs) ! k) (i + k) = Inr ((a # ys) ! k)"
      using a ys(3) by (cases k) auto
  qed
  with ys(1,2) show ?case by (intro exI[of _ "a # ys"]) simp
qed

lemma ParseSurveyRecord_questions:
  assumes "ParseSurveyRecord survey = Inr (d, title, desc)"
    and "map_of survey ''questions'' = Some (JArr qs)"
  shows "length (Questions d) = length qs \<and>
         (\<forall>k<length qs. question_step (qs ! k) k = Inr (Questions d ! k))"
proof -
  from assms have "parseQuestions qs 0 [] = Inr (Questions d)"
    by (auto simp: ParseSurveyRecord_def Let_def split: option.splits sum.splits if_splits)
  then have "iterate question_step (\<lambda>acc q. acc @ [q]) qs 0 [] = Inr (Questions d)"
    by (simp add: parseQuestions_iterate)
  from iterate_append_result[OF this] show ?thesis by auto
qed

lemma ParseSurveyRecord_question_type:
  assumes "valid_survey_record survey" and "map_of survey ''questions'' = Some (JArr qs)"
    and "i < length qs" and "qs ! i = JObj qObj"
    and "map_of qObj ''type'' = Some (JStr (prefix @ ''#'' @ segment))"
    and "CHR ''#'' \<notin> set segment"
  shows "\<exists>d title desc. ParseSurveyRecord survey = Inr (d, title, desc) \<and>
           length (Questions d) = length qs \<and> q_Type (Questions d ! i) = segment"
proof -
  from assms(1) ParseSurveyRecord_succeeds_iff[of survey]
  obtain d title desc where ok: "ParseSurveyRecord survey = Inr (d, title, desc)" by auto
  from ParseSurveyRecord_questions[OF ok assms(2)] assms(3,4)
  have len: "length (Questions d) = length qs"
    and "parseQuestion qObj i = Inr (Questions d ! i)"
    by (auto simp: question_step_def)
  from parseQuestion_type[OF assms(6,5) this(2)] len ok show ?thesis by blast
qed

lemma ParseSurveyRecord_title:
  assumes "valid_survey_record survey" and "map_of survey ''name'' = Some (JStr title)"
  shows "\<exists>d desc. ParseSurveyRecord survey = Inr (d, title, desc)"
proof -
  from assms(1) ParseSurveyRecord_succeeds_iff[of survey]
  obtain d t desc where ok: "ParseSurveyRecord survey = Inr (d, t, desc)" by auto
  from ParseSurveyRecord_name[OF ok] assms(2) have "t = title" by simp
  with ok show ?thesis by blast
qed

lemma ParseResponseRecord_uri:
  assumes "ParseResponseRecord response = Inr (uri, answers)"
  shows "\<exists>sub. map_of response ''subject'' = Some (JObj sub) \<and> map_of sub ''uri'' = Some (JStr uri)"
  using assms
  by (auto simp: ParseResponseRecord_def required_string_Some_iff
           split: option.splits sum.splits if_splits elim!: as_object.elims)

lemma ParseResponseRecord_last_answer:
  assumes "valid_response_record response"
    and "map_of response ''answers'' = Some (JArr xs)"
    and "j < length xs" and "xs ! j = JObj obj"
    and "required_string obj ''questionId'' = Some q"
    and "\<forall>k. j < k \<and> k < length xs \<longrightarrow> question_id_of (xs ! k) \<noteq> Some q"
  shows "\<exists>uri answers sub. ParseResponseRecord response = Inr (uri, answers) \<and>
           map_of response ''subject'' = Some (JObj sub) \<and> map_of sub ''uri'' = Some (JStr uri) \<and>
           answers q = Some \<lparr>SelectedOptions = selected_of obj, Text = text_of obj\<rparr>"
proof -
  from assms(1) ParseResponseRecord_succeeds_iff[of response]
  obtain uri answers where ok: "ParseResponseRecord response = Inr (uri, answers)" by auto
  from ParseResponseRecord_Inr_answers[OF ok] assms(2)
  have pa: "parseAnswers xs 0 Map.empty = Inr answers" by simp
  from parseAnswers_last[OF pa assms(3,4,5,6)] ParseResponseRecord_uri[OF ok] ok
  show ?thesis by blast
qed

lemma ParseResponseRecord_response_selected_key:
  "ParseResponseRecord response_selected_key =
     Inr (''at://did:plc:owner/net.openmeet.survey/s1'',
          [''q1'' \<mapsto> \<lparr>SelectedOptions = [''y''], Text = []\<rparr>,
           ''q2'' \<mapsto> \<lparr>SelectedOptions = [], Text = []\<rparr>])"
  by (simp add: response_selected_key_def ParseResponseRecord_def required_string_def
        parseAnswer_def)

lemma ParseResponseRecord_response_only_question_id:
  "ParseResponseRecord response_only_question_id =
     Inr (''at://did:plc:a/net.openmeet.survey/1'',
          [''q1'' \<mapsto> \<lparr>SelectedOptions = [], Text = []\<rparr>])"
  by (simp add: response_only_question_id_def ParseResponseRecord_def required_string_def
        parseAnswer_def)

lemma valid_response_only_question_id: "valid_response_record response_only_question_id"
  by (simp add: response_only_question_id_def valid_response_record_def has_subject_uri_def
        nonempty_string_field_def text_malformed_def)

lemma valid_survey_coffee: "valid_survey_record survey_coffee"
  by (simp add: survey_coffee_def valid_survey_record_def nonempty_string_field_def)

lemma only_question_id_valid:
  assumes "nonempty_string_field obj ''questionId''"
    and "map_of obj ''selectedOptions'' = None" and "map_of obj ''text'' = None"
  shows "valid_answer (JObj obj)"
  using assms by (simp add: text_malformed_def)

lemma valid_response_selected_key: "valid_response_record response_selected_key"
  by (simp add: response_selected_key_def valid_response_record_def has_subject_uri_def
        nonempty_string_field_def text_malformed_def)

section \<open>Slug generation, stage by stage\<close>

lemma hyphen_not_slug_char: "\<not> is_slug_char CHR ''-''"
  by (simp add: is_slug_char_def)

lemma Replace_slug_prefix:
  "list_all is_slug_char u \<Longrightarrow> ReplaceAllString_slugRegex (u @ v) = u @ ReplaceAllString_slugRegex v"
  by (induction u) auto

lemma Replace_run:
  assumes "r \<noteq> []" and "list_all (\<lambda>c. \<not> is_slug_char c) r" and "v = [] \<or> is_slug_char (hd v)"
  shows "ReplaceAllString_slugRegex (r @ v) = CHR ''-'' # ReplaceAllString_slugRegex v"
proof -
  from assms(1) obtain c r' where r: "r = c # r'" by (cases r) auto
  with assms(2) have c: "\<not> is_slug_char c" and r': "\<forall>x\<in>set r'. \<not> is_slug_char x"
    by (auto simp: list_all_iff)
  from assms(3) have "dropWhile (\<lambda>x. \<not> is_slug_char x) v = v" by (cases v) auto
  with r' have "dropWhile (\<lambda>x. \<not> is_slug_char x) (r' @ v) = v"
    by (simp add: dropWhile_append)
  with c r show ?thesis by simp
qed

lemma filter_dropWhile_not: "filter P (dropWhile (\<lambda>x. \<not> P x) xs) = filter P xs"
  by (induction xs) auto

lemma Replace_keeps_slug_chars:
  "filter is_slug_char (ReplaceAllString_slugRegex s) = filter is_slug_char s"
  by (induction s rule: ReplaceAllString_slugRegex.induct)
     (auto simp: hyphen_not_slug_char filter_dropWhile_not)

lemma Replace_alphabet:
  "c \<in> set (ReplaceAllString_slugRegex s) \<Longrightarrow> is_slug_char c \<or> c = CHR ''-''"
  by (induction s arbitrary: c rule: ReplaceAllString_slugRegex.induct) (auto split: if_splits)

lemma TrimRight_decomp: "\<exists>k. s = TrimRight s @ replicate k CHR ''-''"
proof -
  have "rev s = takeWhile (\<lambda>c. c = CHR ''-'') (rev s) @ dropWhile (\<lambda>c. c = CHR ''-'') (rev s)"
    by simp
  then have "s = rev (dropWhile (\<lambda>c. c = CHR ''-'') (rev s)) @ rev (takeWhile (\<lambda>c. c = CHR ''-'') (rev s))"
    by (metis rev_append rev_rev_ident)
  moreover have "rev (takeWhile (\<lambda>c. c = CHR ''-'') (rev s))
      = replicate (length (takeWhile (\<lambda>c. c = CHR ''-'') (rev s))) CHR ''-''"
    by (rule replicate_eqI) (auto dest: set_takeWhileD)
  ultimately show ?thesis unfolding TrimRight_def by metis
qed

lemma TrimLeft_decomp: "\<exists>k. s = replicate k CHR ''-'' @ TrimLeft s"
proof -
  have "s = takeWhile (\<lambda>c. c = CHR ''-'') s @ dropWhile (\<lambda>c. c = CHR ''-'') s" by simp
  moreover have "takeWhile (\<lambda>c. c = CHR ''-'') s
      = replicate (length (takeWhile (\<lambda>c. c = CHR ''-'') s)) CHR ''-''"
    by (rule replicate_eqI) (auto dest: set_takeWhileD)
  ultimately show ?thesis unfolding TrimLeft_def by metis
qed

lemma TrimRight_last: "TrimRight s \<noteq> [] \<Longrightarrow> last (TrimRight s) \<noteq> CHR ''-''"
  unfolding TrimRight_def
  by (metis (mono_tags, lifting) hd_dropWhile last_rev rev_is_Nil_conv)

lemma TrimLeft_hd: "TrimLeft s \<noteq> [] \<Longrightarrow> hd (TrimLeft s) \<noteq> CHR ''-''"
  unfolding TrimLeft_def by (metis (mono_tags, lifting) hd_dropWhile)

lemma TrimRight_hd: "s \<noteq> [] \<Longrightarrow> hd s \<noteq> CHR ''-'' \<Longrightarrow> TrimRight s \<noteq> [] \<and> hd (TrimRight s) = hd s"
proof -
  assume s: "s \<noteq> []" "hd s \<noteq> CHR ''-''"
  obtain k where k: "s = TrimRight s @ replicate k CHR ''-''" using TrimRight_decomp by blast
  show ?thesis
  proof (cases "TrimRight s = []")
    case True
    with k s show ?thesis by (cases k) auto
  next
    case False
    with k show ?thesis by (metis hd_append2)
  qed
qed

lemma filter_slug_replicate_hyphen: "filter is_slug_char (replicate k CHR ''-'') = []"
  by (simp add: hyphen_not_slug_char)

lemma Trim_keeps_slug_chars: "filter is_slug_char (Trim s) = filter is_slug_char s"
proof -
  obtain a where a: "s = replicate a CHR ''-'' @ TrimLeft s" using TrimLeft_decomp by blast
  obtain b where b: "TrimLeft s = TrimRight (TrimLeft s) @ replicate b CHR ''-''"
    using TrimRight_decomp by blast
  have "filter is_slug_char s = filter is_slug_char (TrimLeft s)"
    by (subst a) (simp add: hyphen_not_slug_char)
  also have "\<dots> = filter is_slug_char (TrimRight (TrimLeft s))"
    by (subst b) (simp add: hyphen_not_slug_char)
  finally show ?thesis by (simp add: Trim_def)
qed

lemma Trim_ends:
  assumes "Trim s \<noteq> []"
  shows "hd (Trim s) \<noteq> CHR ''-'' \<and> last (Trim s) \<noteq> CHR ''-''"
proof -
  from assms have ne: "TrimLeft s \<noteq> []" by (auto simp: Trim_def TrimRight_def)
  from TrimRight_hd[OF ne TrimLeft_hd[OF ne]] TrimLeft_hd[OF ne]
  have "hd (Trim s) \<noteq> CHR ''-''" by (simp add: Trim_def)
  moreover from assms TrimRight_last[of "TrimLeft s"] have "last (Trim s) \<noteq> CHR ''-''"
    by (simp add: Trim_def)
  ultimately show ?thesis ..
qed

lemma Trim_decomp:
  "\<exists>a b. s = replicate a CHR ''-'' @ Trim s @ replicate b CHR ''-''"
proof -
  obtain a where a: "s = replicate a CHR ''-'' @ TrimLeft s" using TrimLeft_decomp by blast
  obtain b where b: "TrimLeft s = TrimRight (TrimLeft s) @ replicate b CHR ''-''"
    using TrimRight_decomp by blast
  from a b show ?thesis unfolding Trim_def by metis
qed


lemma ToLower_ascii:
  "list_all (\<lambda>c. (of_char c :: nat) < 128) title \<Longrightarrow> ToLower title = map ascii_lower title"
proof (induction title rule: ToLower.induct)
  case (1 c1 c2 c3 cs)
  then have "c1 \<noteq> CHR 0xE2" "c1 \<noteq> CHR 0xC4" by auto
  with 1 show ?case by simp
next
  case (2 c1 c2)
  then have "c1 \<noteq> CHR 0xC4" by auto
  then show ?case by simp
qed simp_all

lemma normalized_decomp:
  "\<exists>a b. ReplaceAllString_slugRegex (ToLower title)
            = replicate a CHR ''-'' @ normalized title @ replicate b CHR ''-''"
  unfolding normalized_def by (rule Trim_decomp)

lemma normalized_ends:
  "normalized title \<noteq> [] \<Longrightarrow>
     hd (normalized title) \<noteq> CHR ''-'' \<and> last (normalized title) \<noteq> CHR ''-''"
  unfolding normalized_def by (rule Trim_ends)

lemma normalized_nonempty:
  assumes "\<exists>c\<in>set (ToLower title). is_slug_char c"
  shows "normalized title \<noteq> []"
proof -
  have "filter is_slug_char (normalized title) = filter is_slug_char (ToLower title)"
    by (simp add: normalized_def Trim_keeps_slug_chars Replace_keeps_slug_chars)
  moreover from assms have "filter is_slug_char (ToLower title) \<noteq> []"
    by (simp add: filter_empty_conv)
  ultimately show ?thesis by auto
qed

lemma slug_short:
  "length (normalized title) < 3 \<Longrightarrow> GenerateSlugFromTitle title = ''survey-'' @ normalized title"
  by (simp add: GenerateSlugFromTitle_def normalized_def Let_def)

lemma slug_middle:
  "3 \<le> length (normalized title) \<Longrightarrow> length (normalized title) \<le> 50 \<Longrightarrow>
     GenerateSlugFromTitle title = normalized title"
  by (simp add: GenerateSlugFromTitle_def normalized_def Let_def)

lemma slug_long:
  "50 < length (normalized title) \<Longrightarrow>
     GenerateSlugFromTitle title = TrimRight (take 50 (normalized title))"
  by (simp add: GenerateSlugFromTitle_def normalized_def Let_def)

lemma slug_long_props:
  assumes "50 < length (normalized title)"
  shows "(\<exists>k. take 50 (normalized title) = GenerateSlugFromTitle title @ replicate k CHR ''-'') \<and>
         GenerateSlugFromTitle title \<noteq> [] \<and> last (GenerateSlugFromTitle title) \<noteq> CHR ''-''"
proof -
  let ?n = "normalized title"
  from assms have ne: "?n \<noteq> []" by auto
  from assms have tne: "take 50 ?n \<noteq> []" by auto
  from ne have "hd (take 50 ?n) = hd ?n" by (cases ?n) auto
  with normalized_ends[OF ne] have "hd (take 50 ?n) \<noteq> CHR ''-''" by simp
  from TrimRight_hd[OF tne this] have "TrimRight (take 50 ?n) \<noteq> []" by simp
  with TrimRight_last[of "take 50 ?n"] TrimRight_decomp[of "take 50 ?n"] slug_long[OF assms]
  show ?thesis by simp
qed

lemma slug_length: "length (GenerateSlugFromTitle title) \<le> 50"
proof -
  consider "length (normalized title) < 3" | "3 \<le> length (normalized title)" "length (normalized title) \<le> 50"
    | "50 < length (normalized title)" by linarith
  then show ?thesis
  proof cases
    case 1
    then show ?thesis by (simp add: slug_short)
  next
    case 2
    then show ?thesis by (simp add: slug_middle)
  next
    case 3
    obtain k where "take 50 (normalized title) = TrimRight (take 50 (normalized title)) @ replicate k CHR ''-''"
      using TrimRight_decomp by blast
    then have "length (TrimRight (take 50 (normalized title))) \<le> length (take 50 (normalized title))"
      by (metis le_add1 length_append)
    with 3 show ?thesis by (simp add: slug_long)
  qed
qed

lemma slug_no_trailing_hyphen:
  assumes "\<exists>c\<in>set (ToLower title). is_slug_char c"
  shows "GenerateSlugFromTitle title \<noteq> [] \<and> last (GenerateSlugFromTitle title) \<noteq> CHR ''-''"
proof -
  let ?n = "normalized title"
  from normalized_nonempty[OF assms] have ne: "?n \<noteq> []" .
  consider "length ?n < 3" | "3 \<le> length ?n" "length ?n \<le> 50" | "50 < length ?n" by linarith
  then show ?thesis
  proof cases
    case 1
    with ne normalized_ends[OF ne] show ?thesis by (simp add: slug_short)
  next
    case 2
    with ne normalized_ends[OF ne] show ?thesis by (simp add: slug_middle)
  next
    case 3
    from slug_long_props[OF 3] show ?thesis by simp
  qed
qed

lemma slug_Team_Meeting: "GenerateSlugFromTitle ''Team Meeting'' = ''team-meeting''"
  by code_simp

lemma slug_question_marks: "GenerateSlugFromTitle ''??'' = ''survey-''"
  by code_simp

lemma slug_title_topics:
  "GenerateSlugFromTitle title_topics = ''which-topics-should-our-next-all-hands-meeting-be''"
  by code_simp

lemma length_title_topics: "length title_topics = 60"
  by (simp add: title_topics_def)

lemma title_topics_has_slug_char: "\<exists>c\<in>set (ToLower title_topics). is_slug_char c"
proof -
  have "CHR ''w'' \<in> set (ToLower title_topics)" by code_simp
  moreover have "is_slug_char CHR ''w''" by (simp add: is_slug_char_def)
  ultimately show ?thesis by blast
qed

lemma ascii_lower_spec:
  "(65 \<le> (of_char c :: nat) \<and> (of_char c :: nat) \<le> 90
      \<longrightarrow> (of_char (ascii_lower c) :: nat) = of_char c + 32) \<and>
   (\<not> (65 \<le> (of_char c :: nat) \<and> (of_char c :: nat) \<le> 90) \<longrightarrow> ascii_lower c = c)"
  by (auto simp: ascii_lower_def)

lemma ascii_lower_slug: "ascii_alnum c \<Longrightarrow> is_slug_char (ascii_lower c)"
  using ascii_lower_spec[of c] by (auto simp: ascii_alnum_def is_slug_char_def)

lemma ToLower_step:
  assumes "\<not> (c = CHR 0xE2 \<and> take 2 v = [CHR 0x84, CHR 0xAA])"
    and "\<not> (c = CHR 0xC4 \<and> take 1 v = [CHR 0xB0])"
  shows "ToLower (c # v) = ascii_lower c # ToLower v"
proof (cases v)
  case Nil
  then show ?thesis by simp
next
  case (Cons c2 v2)
  show ?thesis
  proof (cases v2)
    case Nil
    with Cons assms show ?thesis by auto
  next
    case (Cons c3 v3)
    with \<open>v = c2 # v2\<close> assms show ?thesis by auto
  qed
qed

lemma ToLower_kelvin: "ToLower (CHR 0xE2 # CHR 0x84 # CHR 0xAA # v) = CHR ''k'' # ToLower v"
  by simp

lemma ToLower_dotted: "ToLower (CHR 0xC4 # CHR 0xB0 # v) = CHR ''i'' # ToLower v"
  by (cases v) simp_all

lemma ToLower_has_slug_char:
  "\<exists>c\<in>set title. ascii_alnum c \<Longrightarrow> \<exists>c\<in>set (ToLower title). is_slug_char c"
proof (induction title rule: ToLower.induct)
  case (1 c1 c2 c3 cs)
  have k: "is_slug_char CHR ''k''" "is_slug_char CHR ''i''" by (simp_all add: is_slug_char_def)
  have na: "\<not> ascii_alnum (CHR 0xE2)" "\<not> ascii_alnum (CHR 0x84)" "\<not> ascii_alnum (CHR 0xAA)"
    "\<not> ascii_alnum (CHR 0xC4)" "\<not> ascii_alnum (CHR 0xB0)"
    by (simp_all add: ascii_alnum_def)
  show ?case
  proof (cases "c1 = CHR 0xE2 \<and> c2 = CHR 0x84 \<and> c3 = CHR 0xAA")
    case True
    then show ?thesis using k by simp
  next
    case nk: False
    show ?thesis
    proof (cases "c1 = CHR 0xC4 \<and> c2 = CHR 0xB0")
      case True
      then show ?thesis using k nk by simp
    next
      case False
      show ?thesis
      proof (cases "ascii_alnum c1")
        case True
        with nk False ascii_lower_slug[of c1] show ?thesis by auto
      next
        case nc: False
        with "1.prems" have "\<exists>c\<in>set (c2 # c3 # cs). ascii_alnum c" by auto
        with "1.IH"(3) nk False have "\<exists>c\<in>set (ToLower (c2 # c3 # cs)). is_slug_char c" by blast
        with nk False show ?thesis by auto
      qed
    qed
  qed
next
  case (2 c1 c2)
  have k: "is_slug_char CHR ''i''" by (simp add: is_slug_char_def)
  from 2 ascii_lower_slug show ?case using k by auto
next
  case (3 c1)
  with ascii_lower_slug show ?case by auto
next
  case 4
  then show ?case by simp
qed

lemma slug_title_accent:
  "GenerateSlugFromTitle title_accent = ''aaaaaaaaaaaaaaaaaaaaaaaaaaaaaaaaaaaaaaaaaaaaaaaaaa''"
  by code_simp

lemma length_title_accent: "length title_accent = 60"
  by (simp add: title_accent_def)

lemma title_accent_alnum: "\<exists>c\<in>set title_accent. ascii_alnum c"
proof -
  have "CHR ''A'' \<in> set title_accent" by (simp add: title_accent_def)
  moreover have "ascii_alnum CHR ''A''" by (simp add: ascii_alnum_def)
  ultimately show ?thesis by blast
qed

lemma title_topics_alnum: "\<exists>c\<in>set title_topics. ascii_alnum c"
proof -
  have "CHR ''W'' \<in> set title_topics" by (simp add: title_topics_def)
  moreover have "ascii_alnum CHR ''W''" by (simp add: ascii_alnum_def)
  ultimately show ?thesis by blast
qed

section \<open>The processor, event by event\<close>




lemma ProcessEvent_transient:
  assumes "ProcessEvent storage_up fault now ev db = ((applied, Some err), st)" and "\<not> permanent err"
  shows "st = db"
  using assms
  by (auto simp: ProcessEvent_def BeginTx_def Commit_def Rollback_def Let_def
           split: sum.splits if_splits)

lemma ProcessEvent_storage_down:
  "ProcessEvent False fault now ev db = ((False, Some StorageUnavailable), db)"
  by (simp add: ProcessEvent_def BeginTx_def Rollback_def)

lemma ProcessEvent_cursor_write_fails:
  assumes "apply_event ev db = Inr tx" and "advance_cursor fault now (sequence ev) tx = Inl ce"
  shows "ProcessEvent True fault now ev db = ((False, Some (CursorWriteFailed ce)), db)"
  using assms by (simp add: ProcessEvent_def BeginTx_def Rollback_def)
















section \<open>The backoff schedule\<close>

lemma double_capped:
  fixes b M k :: nat
  shows "min (min (2 * b) M * 2 ^ k) M = min (b * 2 ^ Suc k) M"
proof (cases "2 * b \<le> M")
  case True
  then have "min (2 * b) M = 2 * b" by (rule min_absorb1)
  then show ?thesis by (simp add: ac_simps)
next
  case False
  then have m: "min (2 * b) M = M" by simp
  have "M \<le> M * 2 ^ k" by simp
  then have l: "min (M * 2 ^ k) M = M" by (rule min_absorb2)
  have "2 * b \<le> 2 * b * 2 ^ k" by simp
  with False have "M \<le> 2 * b * 2 ^ k" by linarith
  then have "M \<le> b * 2 ^ Suc k" by (simp add: ac_simps)
  then have r: "min (b * 2 ^ Suc k) M = M" by (rule min_absorb2)
  show ?thesis unfolding m l r by (rule refl)
qed

lemma waits_failures:
  "b \<le> max_backoff \<Longrightarrow>
     waits b (replicate n Failure) = map (\<lambda>k. min (b * 2 ^ k) max_backoff) [0..<n]"
proof (induction n arbitrary: b)
  case 0
  show ?case by simp
next
  case (Suc n)
  have le: "min (2 * b) max_backoff \<le> max_backoff" by simp
  have "waits b (replicate (Suc n) Failure)
          = b # waits (min (2 * b) max_backoff) (replicate n Failure)" by simp
  also have "\<dots> = b # map (\<lambda>k. min (min (2 * b) max_backoff * 2 ^ k) max_backoff) [0..<n]"
    by (simp only: Suc.IH[OF le])
  also have "\<dots> = b # map (\<lambda>k. min (b * 2 ^ Suc k) max_backoff) [0..<n]"
    by (simp only: double_capped)
  also have "\<dots> = map (\<lambda>k. min (b * 2 ^ k) max_backoff) [0..<Suc n]"
    using Suc.prems by (simp only: map_upt_Suc) simp
  finally show ?case .
qed

lemma waits_after_streaming:
  "waits b (cs @ SustainedStreaming # ds) = waits b cs @ waits initial_backoff ds"
  by (induction cs arbitrary: b) (auto split: prod.splits option.splits connection.splits)

lemma waits_bounded:
  "b \<le> max_backoff \<Longrightarrow> w \<in> set (waits b cs) \<Longrightarrow> w \<le> max_backoff"
proof (induction cs arbitrary: b)
  case Nil
  then show ?case by simp
next
  case (Cons c cs)
  show ?case
  proof (cases c)
    case Failure
    with Cons.prems Cons.IH[of "min (2 * b) max_backoff"] show ?thesis by auto
  next
    case SustainedStreaming
    with Cons.prems Cons.IH[of initial_backoff] show ?thesis
      by (auto simp: initial_backoff_def max_backoff_def)
  qed
qed

lemma waits_three: "waits initial_backoff (replicate 3 Failure) = [1, 2, 4]"
  by code_simp

lemma waits_reset:
  "waits initial_backoff (replicate 7 Failure @ SustainedStreaming # Failure # [Failure])
     = [1, 2, 4, 8, 16, 32, 60, 1, 2]"
  by code_simp

lemma waits_seven: "waits initial_backoff (replicate 7 Failure) = [1, 2, 4, 8, 16, 32, 60]"
  by code_simp

section \<open>C1: a permanent failure is a no-op committed with the cursor advance\<close>



section \<open>C2: a transient failure rolls the transaction back\<close>

text \<open>
  C2. When the storage fails the data mutation of an event, the transaction is rolled back:
  the store after the attempt is the store before it, cursor and tables alike. The same
  holds whenever the failure reported is transient, the failure of the cursor write after
  a data mutation among them: no part of the data write persists. An \<open>UpdateCursor\<close> inside
  a transaction is seen inside it and gone after the rollback.
\<close>

theorem transient_failure_rolls_back:
  "ProcessEvent False fault now ev db = ((False, Some StorageUnavailable), db) \<and>
   (ProcessEvent storage_up fault now ev db = ((applied, Some err), st) \<and> \<not> permanent err
      \<longrightarrow> st = db) \<and>
   (apply_event ev db = Inr tx \<and> advance_cursor fault now (sequence ev) tx = Inl ce
      \<longrightarrow> ProcessEvent True fault now ev db = ((False, Some (CursorWriteFailed ce)), db)) \<and>
   GetCursor NoFault (cursor (snd (ProcessEvent False fault now ev db)))
     = GetCursor NoFault (cursor db) \<and>
   (cursor db = Some row \<longrightarrow>
      (\<exists>tbl. UpdateCursor NoFault now (cursor (BeginTx db)) v = (None, tbl) \<and>
             GetCursor NoFault tbl = Inr v \<and>
             GetCursor NoFault (cursor (Rollback db ((BeginTx db)\<lparr>cursor := tbl\<rparr>)))
               = Inr (time_us row)))"
proof (intro conjI impI)
  show "ProcessEvent False fault now ev db = ((False, Some StorageUnavailable), db)"
    by (rule ProcessEvent_storage_down)
  then show "GetCursor NoFault (cursor (snd (ProcessEvent False fault now ev db)))
     = GetCursor NoFault (cursor db)" by simp
  show "st = db"
    if "ProcessEvent storage_up fault now ev db = ((applied, Some err), st) \<and> \<not> permanent err"
    using that ProcessEvent_transient by blast
  show "ProcessEvent True fault now ev db = ((False, Some (CursorWriteFailed ce)), db)"
    if "apply_event ev db = Inr tx \<and> advance_cursor fault now (sequence ev) tx = Inl ce"
    using that ProcessEvent_cursor_write_fails by blast
  show "\<exists>tbl. UpdateCursor NoFault now (cursor (BeginTx db)) v = (None, tbl) \<and>
             GetCursor NoFault tbl = Inr v \<and>
             GetCursor NoFault (cursor (Rollback db ((BeginTx db)\<lparr>cursor := tbl\<rparr>)))
               = Inr (time_us row)"
    if "cursor db = Some row"
    using that by (simp add: UpdateCursor_def GetCursor_def BeginTx_def Rollback_def)
qed

text \<open>The theorem at a vote that meets a storage failure, with the cursor at 50.\<close>

theorem transient_failure_rolls_back_witness:
  "ProcessEvent False NoFault 9 (event_vote 101 ''r1'' response_coffee) store_one_survey
     = ((False, Some StorageUnavailable), store_one_survey) \<and>
   GetCursor NoFault (cursor (snd (ProcessEvent False NoFault 9
        (event_vote 101 ''r1'' response_coffee) store_one_survey))) = Inr 50 \<and>
   responses (snd (ProcessEvent False NoFault 9
        (event_vote 101 ''r1'' response_coffee) store_one_survey)) = [] \<and>
   UpdateCursor NoFault 9 (cursor (BeginTx store_one_survey)) 999999
     = (None, Some \<lparr>time_us = 999999, updated_at = 9\<rparr>) \<and>
   GetCursor NoFault (cursor (Rollback store_one_survey
        ((BeginTx store_one_survey)\<lparr>cursor := Some \<lparr>time_us = 999999, updated_at = 9\<rparr>\<rparr>)))
     = Inr 50"
proof -
  have c: "cursor store_one_survey = Some \<lparr>time_us = 50, updated_at = 0\<rparr>"
    "responses store_one_survey = []"
    by (simp_all add: store_one_survey_def)
  have u: "UpdateCursor NoFault 9 (cursor (BeginTx store_one_survey)) 999999
     = (None, Some \<lparr>time_us = 999999, updated_at = 9\<rparr>)"
    by (simp add: UpdateCursor_def BeginTx_def c)
  from transient_failure_rolls_back[of NoFault 9 "event_vote 101 ''r1'' response_coffee"
      store_one_survey False False StorageUnavailable store_one_survey store_one_survey
      "CursorRowMissing" "\<lparr>time_us = 50, updated_at = 0\<rparr>" 999999] c u
  show ?thesis by (simp add: GetCursor_def Rollback_def)
qed

section \<open>C3: one response per voter and survey\<close>



section \<open>C4: what a decoded answer holds\<close>

text \<open>
  C4, as amended. Every Answer of a successful \<open>ParseResponseRecord\<close> comes from an answer
  object of the \<^verbatim>\<open>answers\<close> array with that question id, and holds exactly what the object
  gives: the strings of its \<^verbatim>\<open>selectedOptions\<close> array when the entry is there and no
  selected option otherwise, its \<^verbatim>\<open>text\<close> when the entry is there and the empty text
  otherwise. An answer object that carries only a \<^verbatim>\<open>questionId\<close> is accepted, and yields
  an Answer with both fields empty, stored under its question id (the last object of a
  question id being the one that counts).
\<close>

theorem answer_fields_as_given:
  "(ParseResponseRecord response = Inr (uri, answers) \<and> answers q = Some a \<longrightarrow>
      (\<exists>xs obj. map_of response ''answers'' = Some (JArr xs) \<and> JObj obj \<in> set xs \<and>
         required_string obj ''questionId'' = Some q \<and>
         SelectedOptions a = selected_of obj \<and> Text a = text_of obj)) \<and>
   (valid_response_record response \<and> map_of response ''answers'' = Some (JArr ys) \<and>
    j < length ys \<and> ys ! j = JObj ansObj \<and> required_string ansObj ''questionId'' = Some q' \<and>
    (\<forall>k. j < k \<and> k < length ys \<longrightarrow> question_id_of (ys ! k) \<noteq> Some q') \<longrightarrow>
      (\<exists>uri' answers'. ParseResponseRecord response = Inr (uri', answers') \<and>
         answers' q' = Some \<lparr>SelectedOptions = selected_of ansObj, Text = text_of ansObj\<rparr> \<and>
         (map_of ansObj ''selectedOptions'' = None \<and> map_of ansObj ''text'' = None \<longrightarrow>
            answers' q' = Some \<lparr>SelectedOptions = [], Text = []\<rparr>))) \<and>
   (nonempty_string_field only ''questionId'' \<and> map_of only ''selectedOptions'' = None \<and>
    map_of only ''text'' = None \<longrightarrow> valid_answer (JObj only))"
proof (intro conjI impI)
  assume h: "ParseResponseRecord response = Inr (uri, answers) \<and> answers q = Some a"
  from ParseResponseRecord_Inr_answers[of response uri answers] h obtain xs
    where xs: "map_of response ''answers'' = Some (JArr xs)"
      "parseAnswers xs 0 Map.empty = Inr answers" by blast
  from parseAnswers_lookup[OF xs(2), of q a] h obtain obj where obj: "JObj obj \<in> set xs"
      "required_string obj ''questionId'' = Some q"
      "a = \<lparr>SelectedOptions = selected_of obj, Text = text_of obj\<rparr>" by auto
  with xs(1) show "\<exists>xs obj. map_of response ''answers'' = Some (JArr xs) \<and> JObj obj \<in> set xs \<and>
         required_string obj ''questionId'' = Some q \<and>
         SelectedOptions a = selected_of obj \<and> Text a = text_of obj" by auto
next
  assume h: "valid_response_record response \<and> map_of response ''answers'' = Some (JArr ys) \<and>
    j < length ys \<and> ys ! j = JObj ansObj \<and> required_string ansObj ''questionId'' = Some q' \<and>
    (\<forall>k. j < k \<and> k < length ys \<longrightarrow> question_id_of (ys ! k) \<noteq> Some q')"
  then obtain uri' answers' where r: "ParseResponseRecord response = Inr (uri', answers')"
      "answers' q' = Some \<lparr>SelectedOptions = selected_of ansObj, Text = text_of ansObj\<rparr>"
    using ParseResponseRecord_last_answer[of response ys j ansObj q'] by blast
  have "map_of ansObj ''selectedOptions'' = None \<and> map_of ansObj ''text'' = None \<longrightarrow>
            answers' q' = Some \<lparr>SelectedOptions = [], Text = []\<rparr>"
    using r(2) by (simp add: selected_of_def text_of_def)
  with r show "\<exists>uri' answers'. ParseResponseRecord response = Inr (uri', answers') \<and>
         answers' q' = Some \<lparr>SelectedOptions = selected_of ansObj, Text = text_of ansObj\<rparr> \<and>
         (map_of ansObj ''selectedOptions'' = None \<and> map_of ansObj ''text'' = None \<longrightarrow>
            answers' q' = Some \<lparr>SelectedOptions = [], Text = []\<rparr>)" by blast
next
  assume "nonempty_string_field only ''questionId'' \<and> map_of only ''selectedOptions'' = None \<and>
    map_of only ''text'' = None"
  then show "valid_answer (JObj only)" using only_question_id_valid by blast
qed

text \<open>The theorem at the record whose one answer has a question id and nothing else, and
  at a record whose second answer selects \<^verbatim>\<open>n\<close>.\<close>

theorem answer_fields_as_given_witness:
  "valid_response_record response_only_question_id \<and>
   valid_answer (JObj [(''questionId'', JStr ''q1'')]) \<and>
   (\<exists>uri answers. ParseResponseRecord response_only_question_id = Inr (uri, answers) \<and>
      answers ''q1'' = Some \<lparr>SelectedOptions = selected_of [(''questionId'', JStr ''q1'')],
                             Text = text_of [(''questionId'', JStr ''q1'')]\<rparr> \<and>
      answers ''q1'' = Some \<lparr>SelectedOptions = [], Text = []\<rparr>) \<and>
   ParseResponseRecord response_duplicate =
     Inr (''at://did:plc:a/net.openmeet.survey/1'',
          [''q1'' \<mapsto> \<lparr>SelectedOptions = [''n''], Text = []\<rparr>]) \<and>
   (\<exists>xs obj. map_of response_duplicate ''answers'' = Some (JArr xs) \<and> JObj obj \<in> set xs \<and>
      required_string obj ''questionId'' = Some ''q1'' \<and> selected_of obj = [''n''] \<and>
      text_of obj = [])"
proof -
  let ?only = "[(''questionId'', JStr ''q1'')]"
  let ?a = "\<lparr>SelectedOptions = [''n''], Text = []\<rparr>"
  note t = answer_fields_as_given[where response = response_only_question_id
      and ys = "[JObj ?only]" and j = 0 and ansObj = ?only and q' = "''q1''" and only = ?only]
  have ys: "map_of response_only_question_id ''answers'' = Some (JArr [JObj ?only])"
    by (simp add: response_only_question_id_def)
  have q: "required_string ?only ''questionId'' = Some ''q1''"
    "nonempty_string_field ?only ''questionId''"
    by (simp_all add: required_string_def nonempty_string_field_def)
  have part1: "valid_answer (JObj ?only) \<and>
    (\<exists>uri answers. ParseResponseRecord response_only_question_id = Inr (uri, answers) \<and>
      answers ''q1'' = Some \<lparr>SelectedOptions = selected_of ?only, Text = text_of ?only\<rparr> \<and>
      answers ''q1'' = Some \<lparr>SelectedOptions = [], Text = []\<rparr>)"
    using t valid_response_only_question_id ys q by simp
  note d = answer_fields_as_given[where response = response_duplicate
      and uri = "''at://did:plc:a/net.openmeet.survey/1''" and answers = "[''q1'' \<mapsto> ?a]"
      and q = "''q1''" and a = ?a]
  have look: "[''q1'' \<mapsto> ?a] ''q1'' = Some ?a" by simp
  from d[THEN conjunct1, rule_format, OF conjI[OF ParseResponseRecord_response_duplicate look]]
  obtain xs obj where f: "map_of response_duplicate ''answers'' = Some (JArr xs)"
      "JObj obj \<in> set xs" "required_string obj ''questionId'' = Some ''q1''"
      "SelectedOptions ?a = selected_of obj" "Text ?a = text_of obj"
    by blast
  from f(4) have sel: "selected_of obj = [''n'']" by simp
  from f(5) have tx: "text_of obj = []" by simp
  from f(1,2,3) sel tx have part2: "\<exists>xs obj. map_of response_duplicate ''answers'' = Some (JArr xs) \<and>
      JObj obj \<in> set xs \<and> required_string obj ''questionId'' = Some ''q1'' \<and>
      selected_of obj = [''n''] \<and> text_of obj = []" by blast
  from part1 part2 valid_response_only_question_id ParseResponseRecord_response_duplicate
  show ?thesis by blast
qed

text \<open>The claim as first stated fails: the record whose one answer has a question id and
  nothing else decodes, to an Answer with no selected option and no text.\<close>

theorem answer_populated_counterexample:
  "\<exists>uri answers.
     ParseResponseRecord response_only_question_id = Inr (uri, answers) \<and>
     answers ''q1'' = Some \<lparr>SelectedOptions = [], Text = []\<rparr>"
  by (simp add: response_only_question_id_def ParseResponseRecord_def required_string_def
        parseAnswer_def)

section \<open>C5: slug generation\<close>

text \<open>
  C5, as amended. For every title, \<open>GenerateSlugFromTitle\<close> lower-cases it (each byte that
  is an ASCII capital, wherever it stands; the two runes whose lower case is ASCII give
  \<^verbatim>\<open>k\<close> and \<^verbatim>\<open>i\<close>), replaces every run of characters other than \<^verbatim>\<open>a\<close>..\<^verbatim>\<open>z\<close> and
  \<^verbatim>\<open>0\<close>..\<^verbatim>\<open>9\<close> by one hyphen and keeps the rest, trims the hyphens at both ends, prefixes
  \<^verbatim>\<open>survey-\<close> when fewer than 3 characters are left, and cuts the result to 50 characters,
  trimming the hyphens the cut leaves at the end. \<^verbatim>\<open>Team Meeting\<close> yields \<^verbatim>\<open>team-meeting\<close>,
  \<^verbatim>\<open>??\<close> yields \<^verbatim>\<open>survey-\<close>, of 7 characters; every slug has at most 50 characters, and
  the slug of a title that holds at least one ASCII letter or digit (one of 60 characters
  among them) is not empty and has no trailing hyphen.
\<close>

theorem slug_generation:
  "(65 \<le> (of_char c :: nat) \<and> (of_char c :: nat) \<le> 90
      \<longrightarrow> (of_char (ascii_lower c) :: nat) = of_char c + 32) \<and>
   (\<not> (65 \<le> (of_char c :: nat) \<and> (of_char c :: nat) \<le> 90) \<longrightarrow> ascii_lower c = c) \<and>
   ToLower [] = [] \<and>
   (\<not> (c = CHR 0xE2 \<and> take 2 w = [CHR 0x84, CHR 0xAA]) \<and>
    \<not> (c = CHR 0xC4 \<and> take 1 w = [CHR 0xB0])
      \<longrightarrow> ToLower (c # w) = ascii_lower c # ToLower w) \<and>
   ToLower (CHR 0xE2 # CHR 0x84 # CHR 0xAA # w) = CHR ''k'' # ToLower w \<and>
   ToLower (CHR 0xC4 # CHR 0xB0 # w) = CHR ''i'' # ToLower w \<and>
   (list_all (\<lambda>c. (of_char c :: nat) < 128) title \<longrightarrow> ToLower title = map ascii_lower title) \<and>
   ReplaceAllString_slugRegex [] = [] \<and>
   (list_all is_slug_char u \<longrightarrow>
      ReplaceAllString_slugRegex (u @ v) = u @ ReplaceAllString_slugRegex v) \<and>
   (r \<noteq> [] \<and> list_all (\<lambda>c. \<not> is_slug_char c) r \<and> (v = [] \<or> is_slug_char (hd v)) \<longrightarrow>
      ReplaceAllString_slugRegex (r @ v) = CHR ''-'' # ReplaceAllString_slugRegex v) \<and>
   (\<exists>a b. ReplaceAllString_slugRegex (ToLower title)
            = replicate a CHR ''-'' @ normalized title @ replicate b CHR ''-'') \<and>
   (normalized title \<noteq> [] \<longrightarrow>
      hd (normalized title) \<noteq> CHR ''-'' \<and> last (normalized title) \<noteq> CHR ''-'') \<and>
   (length (normalized title) < 3 \<longrightarrow>
      GenerateSlugFromTitle title = ''survey-'' @ normalized title) \<and>
   (3 \<le> length (normalized title) \<and> length (normalized title) \<le> 50 \<longrightarrow>
      GenerateSlugFromTitle title = normalized title) \<and>
   (50 < length (normalized title) \<longrightarrow>
      (\<exists>k. take 50 (normalized title) = GenerateSlugFromTitle title @ replicate k CHR ''-'') \<and>
      GenerateSlugFromTitle title \<noteq> [] \<and> last (GenerateSlugFromTitle title) \<noteq> CHR ''-'') \<and>
   length (GenerateSlugFromTitle title) \<le> 50 \<and>
   GenerateSlugFromTitle ''Team Meeting'' = ''team-meeting'' \<and>
   GenerateSlugFromTitle ''??'' = ''survey-'' \<and>
   3 \<le> length (GenerateSlugFromTitle ''??'') \<and>
   ((\<exists>c\<in>set title. ascii_alnum c) \<longrightarrow>
      GenerateSlugFromTitle title \<noteq> [] \<and> last (GenerateSlugFromTitle title) \<noteq> CHR ''-'') \<and>
   ((\<exists>c\<in>set (ToLower title). is_slug_char c) \<longrightarrow>
      GenerateSlugFromTitle title \<noteq> [] \<and> last (GenerateSlugFromTitle title) \<noteq> CHR ''-'')"
proof (intro conjI impI)
  show "GenerateSlugFromTitle ''Team Meeting'' = ''team-meeting''" by (rule slug_Team_Meeting)
  show "GenerateSlugFromTitle ''??'' = ''survey-''" by (rule slug_question_marks)
  show "3 \<le> length (GenerateSlugFromTitle ''??'')" by (simp add: slug_question_marks)
  show "length (GenerateSlugFromTitle title) \<le> 50" by (rule slug_length)
  show "\<exists>a b. ReplaceAllString_slugRegex (ToLower title)
            = replicate a CHR ''-'' @ normalized title @ replicate b CHR ''-''"
    by (rule normalized_decomp)
  show "ToLower [] = []" by simp
  show "ReplaceAllString_slugRegex [] = []" by simp
  show "ToLower (CHR 0xE2 # CHR 0x84 # CHR 0xAA # w) = CHR ''k'' # ToLower w"
    by (rule ToLower_kelvin)
  show "ToLower (CHR 0xC4 # CHR 0xB0 # w) = CHR ''i'' # ToLower w" by (rule ToLower_dotted)
  show "ToLower (c # w) = ascii_lower c # ToLower w"
    if "\<not> (c = CHR 0xE2 \<and> take 2 w = [CHR 0x84, CHR 0xAA]) \<and>
        \<not> (c = CHR 0xC4 \<and> take 1 w = [CHR 0xB0])"
    using that ToLower_step by blast
  show "(of_char (ascii_lower c) :: nat) = of_char c + 32"
    if "65 \<le> (of_char c :: nat) \<and> (of_char c :: nat) \<le> 90"
    using that ascii_lower_spec[of c] by blast
  show "ascii_lower c = c" if "\<not> (65 \<le> (of_char c :: nat) \<and> (of_char c :: nat) \<le> 90)"
    using that ascii_lower_spec[of c] by blast
  show "GenerateSlugFromTitle title \<noteq> []" "last (GenerateSlugFromTitle title) \<noteq> CHR ''-''"
    if "\<exists>c\<in>set title. ascii_alnum c"
    using slug_no_trailing_hyphen[OF ToLower_has_slug_char[OF that]] by simp_all
qed (use ToLower_ascii Replace_slug_prefix Replace_run normalized_ends slug_short slug_middle
      slug_long_props slug_no_trailing_hyphen in \<open>blast+\<close>)

text \<open>The theorem at a title of 60 characters whose cut falls behind a hyphen, and at one
  of 58 capitals followed by the two bytes of an accented letter.\<close>

theorem slug_generation_witness:
  "length title_topics = 60 \<and>
   GenerateSlugFromTitle title_topics = ''which-topics-should-our-next-all-hands-meeting-be'' \<and>
   length (GenerateSlugFromTitle title_topics) \<le> 50 \<and>
   GenerateSlugFromTitle title_topics \<noteq> [] \<and>
   last (GenerateSlugFromTitle title_topics) \<noteq> CHR ''-'' \<and>
   length title_accent = 60 \<and>
   GenerateSlugFromTitle title_accent = ''aaaaaaaaaaaaaaaaaaaaaaaaaaaaaaaaaaaaaaaaaaaaaaaaaa'' \<and>
   GenerateSlugFromTitle title_accent \<noteq> [] \<and>
   last (GenerateSlugFromTitle title_accent) \<noteq> CHR ''-'' \<and>
   GenerateSlugFromTitle ''Team Meeting'' = ''team-meeting'' \<and>
   GenerateSlugFromTitle ''??'' = ''survey-''"
  using slug_generation[where title = title_topics] slug_generation[where title = title_accent]
    title_topics_alnum title_accent_alnum length_title_topics length_title_accent
    slug_title_topics slug_title_accent
  by simp

text \<open>The claim as first stated fails: a title of 60 question marks has no letter or
  digit, and its slug is the bare prefix, which ends in a hyphen.\<close>

theorem slug_trailing_hyphen_counterexample:
  "length title_question_marks = 60 \<and>
   GenerateSlugFromTitle title_question_marks = ''survey-'' \<and>
   last (GenerateSlugFromTitle title_question_marks) = CHR ''-''"
proof -
  have "GenerateSlugFromTitle title_question_marks = ''survey-''" by code_simp
  then show ?thesis by (simp add: title_question_marks_def)
qed

section \<open>C6: required fields and the error on failure\<close>

text \<open>
  C6, as amended. \<open>ParseSurveyRecord\<close> succeeds if and only if the record has a non-empty
  string \<^verbatim>\<open>name\<close> and a non-empty \<^verbatim>\<open>questions\<close> array in which every question has
  non-empty string \<^verbatim>\<open>id\<close>, \<^verbatim>\<open>text\<close> and \<^verbatim>\<open>type\<close> and every listed option non-empty
  \<^verbatim>\<open>id\<close> and \<^verbatim>\<open>text\<close>. \<open>ParseResponseRecord\<close> succeeds if and only if the record has a
  \<^verbatim>\<open>subject.uri\<close> and a non-empty \<^verbatim>\<open>answers\<close> array in which every answer has a non-empty
  \<^verbatim>\<open>questionId\<close>, a \<^verbatim>\<open>selectedOptions\<close> entry that, when there, is an array of strings,
  and a \<^verbatim>\<open>text\<close> entry that, when there, is a string. On failure the error names the first
  field at fault and the index of its question and option, or of its answer.
\<close>

theorem decoder_required_fields:
  "((\<exists>out. ParseSurveyRecord survey = Inr out) \<longleftrightarrow> valid_survey_record survey) \<and>
   (\<forall>e. ParseSurveyRecord survey = Inl e \<longrightarrow> survey_fault survey e) \<and>
   ((\<exists>out. ParseResponseRecord response = Inr out) \<longleftrightarrow> valid_response_record response) \<and>
   (\<forall>e. ParseResponseRecord response = Inl e \<longrightarrow> response_fault response e)"
  using ParseSurveyRecord_succeeds_iff ParseSurveyRecord_Inl
        ParseResponseRecord_succeeds_iff ParseResponseRecord_Inl
  by blast

text \<open>The theorem at a survey whose second question has no text and at a response whose
  answer has a number for its text.\<close>

theorem decoder_required_fields_witness:
  "ParseSurveyRecord survey_missing_text = Inl (QuestionTextRequired 1) \<and>
   survey_fault survey_missing_text (QuestionTextRequired 1) \<and>
   \<not> valid_survey_record survey_missing_text \<and>
   ParseResponseRecord response_text_number = Inl (AnswerTextNotString 0) \<and>
   response_fault response_text_number (AnswerTextNotString 0) \<and>
   \<not> valid_response_record response_text_number"
  using decoder_required_fields[of survey_missing_text response_text_number]
  by (simp add: ParseSurveyRecord_survey_missing_text ParseResponseRecord_response_text_number)

text \<open>The claim as first stated fails for responses: this record has a \<^verbatim>\<open>subject.uri\<close>
  and one answer with a non-empty \<^verbatim>\<open>questionId\<close>, and is refused for its \<^verbatim>\<open>text\<close>.\<close>

theorem response_required_fields_counterexample:
  "claimed_valid_response_record response_text_number \<and>
   ParseResponseRecord response_text_number = Inl (AnswerTextNotString 0) \<and>
   \<not> ((\<exists>out. ParseResponseRecord response_text_number = Inr out)
        \<longleftrightarrow> claimed_valid_response_record response_text_number)"
  by (simp add: ParseResponseRecord_response_text_number)
     (simp add: response_text_number_def claimed_valid_response_record_def has_subject_uri_def
        nonempty_string_field_def)

section \<open>C7: the field mapping\<close>

text \<open>
  C7. The decoder maps the fields as the lexicon names them. A valid survey record decodes
  with its \<^verbatim>\<open>name\<close> as the title, and a \<^verbatim>\<open>title\<close> entry of the record changes nothing.
  A question type \<open>prefix # segment\<close>, where the segment is what follows the last \<^verbatim>\<open>#\<close>,
  decodes to the segment, for every such type. A valid response record decodes to the
  \<^verbatim>\<open>uri\<close> of its subject and, for each question id, to the answer whose selected options
  are the strings of the \<^verbatim>\<open>selectedOptions\<close> entry of the (last) answer object of that id,
  none when the entry is missing; a \<^verbatim>\<open>selected\<close> entry changes nothing.
  \<open>ParseResponseRecord\<close> reads the \<^verbatim>\<open>subject\<close> and the \<^verbatim>\<open>answers\<close> of the record and, of an
  answer, its \<^verbatim>\<open>questionId\<close>, \<^verbatim>\<open>selectedOptions\<close> and \<^verbatim>\<open>text\<close>, and nothing else: no
  other entry of the body, a voter identity among them, reaches the result.
\<close>

theorem field_mapping_quirks:
  "(valid_survey_record survey \<and> map_of survey ''name'' = Some (JStr name) \<longrightarrow>
      (\<exists>d desc. ParseSurveyRecord survey = Inr (d, name, desc))) \<and>
   (\<forall>d title desc. ParseSurveyRecord survey = Inr (d, title, desc)
       \<longrightarrow> map_of survey ''name'' = Some (JStr title)) \<and>
   ParseSurveyRecord ((''title'', v) # survey) = ParseSurveyRecord survey \<and>
   (valid_survey_record survey \<and> map_of survey ''questions'' = Some (JArr qs) \<and>
    n < length qs \<and> qs ! n = JObj qObj \<and>
    map_of qObj ''type'' = Some (JStr (prefix @ ''#'' @ segment)) \<and> CHR ''#'' \<notin> set segment \<longrightarrow>
      (\<exists>d title desc. ParseSurveyRecord survey = Inr (d, title, desc) \<and>
         length (Questions d) = length qs \<and> q_Type (Questions d ! n) = segment)) \<and>
   (CHR ''#'' \<notin> set segment \<longrightarrow> stripTokenPrefix (prefix @ ''#'' @ segment) = segment) \<and>
   (CHR ''#'' \<notin> set segment \<longrightarrow> stripTokenPrefix segment = segment) \<and>
   (valid_response_record response \<and> map_of response ''answers'' = Some (JArr xs) \<and>
    j < length xs \<and> xs ! j = JObj obj \<and> required_string obj ''questionId'' = Some q \<and>
    (\<forall>k. j < k \<and> k < length xs \<longrightarrow> question_id_of (xs ! k) \<noteq> Some q) \<longrightarrow>
      (\<exists>uri answers sub. ParseResponseRecord response = Inr (uri, answers) \<and>
         map_of response ''subject'' = Some (JObj sub) \<and> map_of sub ''uri'' = Some (JStr uri) \<and>
         answers q = Some \<lparr>SelectedOptions = selected_of obj, Text = text_of obj\<rparr> \<and>
         (map_of obj ''selectedOptions'' = None \<longrightarrow>
            answers q = Some \<lparr>SelectedOptions = [], Text = text_of obj\<rparr>) \<and>
         (\<forall>ys. map_of obj ''selectedOptions'' = Some (JArr ys) \<longrightarrow>
            answers q = Some \<lparr>SelectedOptions = strings_of ys, Text = text_of obj\<rparr>))) \<and>
   (\<forall>q a. parseAnswer (JObj ansObj) i = Inr (q, a) \<longrightarrow> SelectedOptions a = selected_of ansObj) \<and>
   parseAnswer (JObj ((''selected'', v) # ansObj)) i = parseAnswer (JObj ansObj) i \<and>
   (map_of r1 ''subject'' = map_of r2 ''subject'' \<and> map_of r1 ''answers'' = map_of r2 ''answers''
      \<longrightarrow> ParseResponseRecord r1 = ParseResponseRecord r2) \<and>
   (map_of m1 ''questionId'' = map_of m2 ''questionId'' \<and>
    map_of m1 ''selectedOptions'' = map_of m2 ''selectedOptions'' \<and>
    map_of m1 ''text'' = map_of m2 ''text''
      \<longrightarrow> parseAnswer (JObj m1) i = parseAnswer (JObj m2) i)"
proof (intro conjI impI allI)
  assume "valid_survey_record survey \<and> map_of survey ''name'' = Some (JStr name)"
  then show "\<exists>d desc. ParseSurveyRecord survey = Inr (d, name, desc)"
    using ParseSurveyRecord_title by blast
next
  fix d title desc assume "ParseSurveyRecord survey = Inr (d, title, desc)"
  then show "map_of survey ''name'' = Some (JStr title)" by (rule ParseSurveyRecord_name)
next
  show "ParseSurveyRecord ((''title'', v) # survey) = ParseSurveyRecord survey"
    by (rule ParseSurveyRecord_ignores_title)
next
  assume "valid_survey_record survey \<and> map_of survey ''questions'' = Some (JArr qs) \<and>
    n < length qs \<and> qs ! n = JObj qObj \<and>
    map_of qObj ''type'' = Some (JStr (prefix @ ''#'' @ segment)) \<and> CHR ''#'' \<notin> set segment"
  then show "\<exists>d title desc. ParseSurveyRecord survey = Inr (d, title, desc) \<and>
         length (Questions d) = length qs \<and> q_Type (Questions d ! n) = segment"
    using ParseSurveyRecord_question_type[of survey qs n qObj prefix segment] by blast
next
  assume "CHR ''#'' \<notin> set segment"
  then show "stripTokenPrefix (prefix @ ''#'' @ segment) = segment"
    by (rule stripTokenPrefix_segment)
next
  assume "CHR ''#'' \<notin> set segment"
  then show "stripTokenPrefix segment = segment" by (rule stripTokenPrefix_plain)
next
  assume h: "valid_response_record response \<and> map_of response ''answers'' = Some (JArr xs) \<and>
    j < length xs \<and> xs ! j = JObj obj \<and> required_string obj ''questionId'' = Some q \<and>
    (\<forall>k. j < k \<and> k < length xs \<longrightarrow> question_id_of (xs ! k) \<noteq> Some q)"
  then obtain uri answers sub where r: "ParseResponseRecord response = Inr (uri, answers)"
      "map_of response ''subject'' = Some (JObj sub)" "map_of sub ''uri'' = Some (JStr uri)"
      "answers q = Some \<lparr>SelectedOptions = selected_of obj, Text = text_of obj\<rparr>"
    using ParseResponseRecord_last_answer[of response xs j obj q] by blast
  have a: "map_of obj ''selectedOptions'' = None \<longrightarrow>
            answers q = Some \<lparr>SelectedOptions = [], Text = text_of obj\<rparr>"
    using r(4) by (simp add: selected_of_def)
  have b: "\<forall>ys. map_of obj ''selectedOptions'' = Some (JArr ys) \<longrightarrow>
            answers q = Some \<lparr>SelectedOptions = strings_of ys, Text = text_of obj\<rparr>"
    using r(4) by (simp add: selected_of_def)
  show "\<exists>uri answers sub. ParseResponseRecord response = Inr (uri, answers) \<and>
         map_of response ''subject'' = Some (JObj sub) \<and> map_of sub ''uri'' = Some (JStr uri) \<and>
         answers q = Some \<lparr>SelectedOptions = selected_of obj, Text = text_of obj\<rparr> \<and>
         (map_of obj ''selectedOptions'' = None \<longrightarrow>
            answers q = Some \<lparr>SelectedOptions = [], Text = text_of obj\<rparr>) \<and>
         (\<forall>ys. map_of obj ''selectedOptions'' = Some (JArr ys) \<longrightarrow>
            answers q = Some \<lparr>SelectedOptions = strings_of ys, Text = text_of obj\<rparr>)"
    by (intro exI[of _ uri] exI[of _ answers] exI[of _ sub] conjI r a b)
next
  fix q a assume "parseAnswer (JObj ansObj) i = Inr (q, a)"
  then show "SelectedOptions a = selected_of ansObj" by (rule parseAnswer_selected)
next
  show "parseAnswer (JObj ((''selected'', v) # ansObj)) i = parseAnswer (JObj ansObj) i"
    by (rule parseAnswer_ignores_selected)
next
  assume "map_of r1 ''subject'' = map_of r2 ''subject'' \<and> map_of r1 ''answers'' = map_of r2 ''answers''"
  then show "ParseResponseRecord r1 = ParseResponseRecord r2"
    using ParseResponseRecord_reads by blast
next
  assume "map_of m1 ''questionId'' = map_of m2 ''questionId'' \<and>
    map_of m1 ''selectedOptions'' = map_of m2 ''selectedOptions'' \<and>
    map_of m1 ''text'' = map_of m2 ''text''"
  then show "parseAnswer (JObj m1) i = parseAnswer (JObj m2) i"
    using parseAnswer_reads by blast
qed

text \<open>The theorem at the survey of the Coffee scenario and at a response whose body has a
  \<^verbatim>\<open>voter\<close> entry and whose answers have \<^verbatim>\<open>selected\<close> entries.\<close>

theorem field_mapping_quirks_witness:
  "ParseSurveyRecord survey_coffee =
     Inr (\<lparr>Questions = [\<lparr>q_ID = ''q1'', q_Text = ''Like coffee?'', q_Type = ''single'',
                          q_Required = False,
                          q_Options = [\<lparr>opt_ID = ''y'', opt_Text = ''Yes''\<rparr>]\<rparr>],
           Anonymous = False\<rparr>, ''Coffee'', []) \<and>
   valid_survey_record survey_coffee \<and>
   map_of survey_coffee ''name'' = Some (JStr ''Coffee'') \<and>
   (\<exists>d desc. ParseSurveyRecord survey_coffee = Inr (d, ''Coffee'', desc)) \<and>
   (\<exists>d title desc. ParseSurveyRecord survey_coffee = Inr (d, title, desc) \<and>
      length (Questions d) = 1 \<and> q_Type (Questions d ! 0) = ''single'') \<and>
   stripTokenPrefix (''net.openmeet.survey'' @ ''#'' @ ''single'') = ''single'' \<and>
   valid_response_record response_selected_key \<and>
   ParseResponseRecord response_selected_key =
     Inr (''at://did:plc:owner/net.openmeet.survey/s1'',
          [''q1'' \<mapsto> \<lparr>SelectedOptions = [''y''], Text = []\<rparr>,
           ''q2'' \<mapsto> \<lparr>SelectedOptions = [], Text = []\<rparr>]) \<and>
   (\<exists>uri answers. ParseResponseRecord response_selected_key = Inr (uri, answers) \<and>
      uri = ''at://did:plc:owner/net.openmeet.survey/s1'' \<and>
      answers ''q1'' = Some \<lparr>SelectedOptions = [''y''], Text = []\<rparr>) \<and>
   ParseResponseRecord ((''voter'', JStr ''did:plc:mallory'') # response_coffee)
     = ParseResponseRecord response_coffee"
proof -
  let ?q = "[(''id'', JStr ''q1''), (''text'', JStr ''Like coffee?''),
             (''type'', JStr ''ns#single''), (''required'', JBool False),
             (''options'', JArr [JObj [(''id'', JStr ''y''), (''text'', JStr ''Yes'')]])]"
  let ?o1 = "[(''questionId'', JStr ''q1''), (''selected'', JArr [JStr ''n'']),
              (''selectedOptions'', JArr [JStr ''y''])]"
  let ?o2 = "[(''questionId'', JStr ''q2''), (''selected'', JArr [JStr ''n''])]"
  note t = field_mapping_quirks[where survey = survey_coffee and name = "''Coffee''"
      and qs = "[JObj ?q]" and n = 0 and qObj = ?q and prefix = "''ns''" and segment = "''single''"
      and response = response_selected_key and xs = "[JObj ?o1, JObj ?o2]" and j = 0
      and obj = ?o1 and q = "''q1''"
      and ?r1.0 = "(''voter'', JStr ''did:plc:mallory'') # response_coffee"
      and ?r2.0 = response_coffee]
  have s: "map_of survey_coffee ''name'' = Some (JStr ''Coffee'')"
    "map_of survey_coffee ''questions'' = Some (JArr [JObj ?q])"
    by (simp_all add: survey_coffee_def)
  have ty: "map_of ?q ''type'' = Some (JStr (''ns'' @ ''#'' @ ''single''))" by simp
  have r: "map_of response_selected_key ''answers'' = Some (JArr [JObj ?o1, JObj ?o2])"
    by (simp add: response_selected_key_def)
  have q: "required_string ?o1 ''questionId'' = Some ''q1''" by (simp add: required_string_def)
  have l: "\<forall>k. 0 < k \<and> k < length [JObj ?o1, JObj ?o2]
              \<longrightarrow> question_id_of ([JObj ?o1, JObj ?o2] ! k) \<noteq> Some ''q1''"
    by (auto simp: question_id_of_def required_string_def less_Suc_eq)
  have so: "selected_of ?o1 = [''y'']" "text_of ?o1 = []"
    by (simp_all add: selected_of_def text_of_def strings_of_def)
  have v: "map_of ((''voter'', JStr ''did:plc:mallory'') # response_coffee) ''subject''
             = map_of response_coffee ''subject''"
    "map_of ((''voter'', JStr ''did:plc:mallory'') # response_coffee) ''answers''
             = map_of response_coffee ''answers''"
    by simp_all
  have strip: "stripTokenPrefix (''net.openmeet.survey'' @ ''#'' @ ''single'') = ''single''"
    using field_mapping_quirks[where segment = "''single''" and prefix = "''net.openmeet.survey''"]
    by simp
  from t valid_survey_coffee s ty have p1:
    "\<exists>d desc. ParseSurveyRecord survey_coffee = Inr (d, ''Coffee'', desc)"
    "\<exists>d title desc. ParseSurveyRecord survey_coffee = Inr (d, title, desc) \<and>
      length (Questions d) = 1 \<and> q_Type (Questions d ! 0) = ''single''"
    by simp_all
  from t valid_response_selected_key r q l so have p2:
    "\<exists>uri answers. ParseResponseRecord response_selected_key = Inr (uri, answers) \<and>
      uri = ''at://did:plc:owner/net.openmeet.survey/s1'' \<and>
      answers ''q1'' = Some \<lparr>SelectedOptions = [''y''], Text = []\<rparr>"
    by (simp add: ParseResponseRecord_response_selected_key)
  from t v have p3: "ParseResponseRecord ((''voter'', JStr ''did:plc:mallory'') # response_coffee)
     = ParseResponseRecord response_coffee" by blast
  from p1 p2 p3 strip s(1) valid_survey_coffee valid_response_selected_key
    ParseSurveyRecord_survey_coffee ParseResponseRecord_response_selected_key
  show ?thesis by blast
qed

section \<open>C8: the contract of the cursor store\<close>

text \<open>
  C8. \<open>GetCursor\<close> fails when the cursor row is absent, with the not-found error when the
  query itself ran, and returns the stored value otherwise. \<open>UpdateCursor\<close> on an absent row
  fails and leaves the row absent: it never inserts. On the existing row it succeeds for
  every value \<open>v\<close>, at, above or below the current cursor, and writes \<open>v\<close> (the store checks
  no monotonicity); it succeeds in no other case. After a successful \<open>UpdateCursor\<close> of \<open>v\<close>,
  \<open>GetCursor\<close> returns \<open>v\<close>.
\<close>

theorem cursor_store_contract:
  "GetCursor NoFault None = Inl CursorRowNotFound \<and>
   (\<exists>e. GetCursor fault None = Inl e) \<and>
   GetCursor NoFault (Some row) = Inr (time_us row) \<and>
   (\<exists>e. UpdateCursor fault now None v = (Some e, None)) \<and>
   UpdateCursor NoFault now None v = (Some CursorRowMissing, None) \<and>
   UpdateCursor NoFault now (Some row) v
     = (None, Some (row\<lparr>time_us := v, updated_at := now\<rparr>)) \<and>
   GetCursor NoFault (snd (UpdateCursor NoFault now (Some row) v)) = Inr v \<and>
   UpdateCursor ExecFails now tbl v = (Some UpdateCursorFailed, tbl) \<and>
   GetCursor ExecFails tbl = Inl GetCursorFailed \<and>
   UpdateCursor RowsAffectedFails now tbl v
     = (Some RowsAffectedFailed,
        map_option (\<lambda>old. old\<lparr>time_us := v, updated_at := now\<rparr>) tbl) \<and>
   (UpdateCursor fault now tbl v = (None, tbl') \<longrightarrow>
      fault = NoFault \<and> (\<exists>old. tbl = Some old \<and> tbl' = Some (old\<lparr>time_us := v, updated_at := now\<rparr>)) \<and>
      GetCursor NoFault tbl' = Inr v)"
  by (cases fault; cases tbl)
     (auto simp: GetCursor_def UpdateCursor_def Let_def split: if_splits)

text \<open>The theorem at a cursor moved forward from 111 to 222, moved back from 555 to 111 and
  rewritten at 555, and at the absent row.\<close>

theorem cursor_store_contract_witness:
  "UpdateCursor NoFault 7 (Some \<lparr>time_us = 111, updated_at = 3\<rparr>) 222
     = (None, Some \<lparr>time_us = 222, updated_at = 7\<rparr>) \<and>
   GetCursor NoFault (Some \<lparr>time_us = 222, updated_at = 7\<rparr>) = Inr 222 \<and>
   UpdateCursor NoFault 8 (Some \<lparr>time_us = 555, updated_at = 3\<rparr>) 111
     = (None, Some \<lparr>time_us = 111, updated_at = 8\<rparr>) \<and>
   GetCursor NoFault (Some \<lparr>time_us = 111, updated_at = 8\<rparr>) = Inr 111 \<and>
   UpdateCursor NoFault 8 (Some \<lparr>time_us = 555, updated_at = 3\<rparr>) 555
     = (None, Some \<lparr>time_us = 555, updated_at = 8\<rparr>) \<and>
   UpdateCursor NoFault 7 None 222 = (Some CursorRowMissing, None) \<and>
   GetCursor NoFault None = Inl CursorRowNotFound"
  using cursor_store_contract[of NoFault "\<lparr>time_us = 111, updated_at = 3\<rparr>" 7 222
      "Some \<lparr>time_us = 111, updated_at = 3\<rparr>" "Some \<lparr>time_us = 222, updated_at = 7\<rparr>"]
    cursor_store_contract[of NoFault "\<lparr>time_us = 555, updated_at = 3\<rparr>" 8 111]
    cursor_store_contract[of NoFault "\<lparr>time_us = 555, updated_at = 3\<rparr>" 8 555]
    cursor_store_contract[of NoFault "\<lparr>time_us = 222, updated_at = 7\<rparr>" 7 222]
    cursor_store_contract[of NoFault "\<lparr>time_us = 111, updated_at = 8\<rparr>" 7 222]
  by simp

section \<open>C9: the backoff schedule\<close>

text \<open>
  C9. Consecutive connection failures wait 1 s, 2 s, 4 s and so on, the wait doubling at
  each failure and capped at 60 s: the wait of failure number \<open>k\<close>, counted from 0, is the
  smaller of \<open>2 ^ k\<close> and 60. No wait exceeds 60 s. After a period of sustained streaming
  the next failure waits 1 s again, and the one after it 2 s.
\<close>

theorem backoff_schedule:
  "waits initial_backoff (replicate n Failure) = map (\<lambda>k. min (2 ^ k) 60) [0..<n] \<and>
   waits initial_backoff (replicate 8 Failure) = [1, 2, 4, 8, 16, 32, 60, 60] \<and>
   (\<forall>w\<in>set (waits initial_backoff history). w \<le> 60) \<and>
   waits initial_backoff (history @ SustainedStreaming # Failure # rest)
     = waits initial_backoff history @ 1 # waits 2 rest"
proof (intro conjI)
  have i: "initial_backoff \<le> max_backoff" by (simp add: initial_backoff_def max_backoff_def)
  from waits_failures[OF i, of n]
  show "waits initial_backoff (replicate n Failure) = map (\<lambda>k. min (2 ^ k) 60) [0..<n]"
    by (simp add: initial_backoff_def max_backoff_def)
  show "waits initial_backoff (replicate 8 Failure) = [1, 2, 4, 8, 16, 32, 60, 60]"
    by code_simp
  show "\<forall>w\<in>set (waits initial_backoff history). w \<le> 60"
    using waits_bounded[OF i] by (auto simp: max_backoff_def)
  show "waits initial_backoff (history @ SustainedStreaming # Failure # rest)
     = waits initial_backoff history @ 1 # waits 2 rest"
    unfolding waits_after_streaming by (simp add: initial_backoff_def max_backoff_def)
qed

text \<open>The theorem at three failures, and at seven failures, a streaming period and two
  more failures.\<close>

theorem backoff_schedule_witness:
  "waits initial_backoff (replicate 3 Failure) = [1, 2, 4] \<and>
   waits initial_backoff (replicate 7 Failure @ SustainedStreaming # Failure # [Failure])
     = [1, 2, 4, 8, 16, 32, 60, 1, 2] \<and>
   waits initial_backoff (replicate 7 Failure) = [1, 2, 4, 8, 16, 32, 60] \<and>
   list_all (\<lambda>w. w \<le> 60) (waits initial_backoff (replicate 7 Failure))"
  using backoff_schedule[of 3 "replicate 7 Failure" "[Failure]"] waits_three waits_reset waits_seven
  by simp

section \<open>C10: two answers to one question\<close>

text \<open>
  C10. When the \<^verbatim>\<open>answers\<close> array holds several answers with one \<^verbatim>\<open>questionId\<close>,
  \<open>ParseResponseRecord\<close> still succeeds (the record being valid otherwise), and the decoded
  mapping has one entry for that question id, taken from the last such answer of the array.
  The keys of the mapping are the question ids of the array.
\<close>

theorem duplicate_question_id_last_wins:
  assumes "valid_response_record record"
    and "map_of record ''answers'' = Some (JArr xs)"
    and "j < length xs" and "xs ! j = JObj obj"
    and "required_string obj ''questionId'' = Some q"
    and "\<forall>k. j < k \<and> k < length xs \<longrightarrow> question_id_of (xs ! k) \<noteq> Some q"
  shows "\<exists>uri answers. ParseResponseRecord record = Inr (uri, answers) \<and>
           answers q = Some \<lparr>SelectedOptions = selected_of obj, Text = text_of obj\<rparr> \<and>
           dom answers = {q'. \<exists>x\<in>set xs. question_id_of x = Some q'}"
proof -
  from assms(1) ParseResponseRecord_succeeds_iff[of "record"]
  obtain uri answers where ok: "ParseResponseRecord record = Inr (uri, answers)" by auto
  from ParseResponseRecord_Inr_answers[OF ok] assms(2)
  have pa: "parseAnswers xs 0 Map.empty = Inr answers" by simp
  from parseAnswers_last[OF pa assms(3,4,5,6)] parseAnswers_dom[OF pa] ok
  show ?thesis by simp
qed

text \<open>The theorem at a record with two answers to \<^verbatim>\<open>q1\<close>: the second wins.\<close>

theorem duplicate_question_id_last_wins_witness:
  "valid_response_record response_duplicate \<and>
   (\<exists>uri answers. ParseResponseRecord response_duplicate = Inr (uri, answers) \<and>
      answers ''q1'' = Some \<lparr>SelectedOptions = [''n''], Text = []\<rparr> \<and>
      dom answers = {''q1''})"
proof -
  let ?xs = "[JObj [(''questionId'', JStr ''q1''), (''selectedOptions'', JArr [JStr ''y''])],
              JObj [(''questionId'', JStr ''q1''), (''selectedOptions'', JArr [JStr ''n''])]]"
  let ?obj = "[(''questionId'', JStr ''q1''), (''selectedOptions'', JArr [JStr ''n''])]"
  have v: "valid_response_record response_duplicate"
    by (simp add: response_duplicate_def valid_response_record_def has_subject_uri_def
          nonempty_string_field_def text_malformed_def)
  have a: "map_of response_duplicate ''answers'' = Some (JArr ?xs)"
    by (simp add: response_duplicate_def)
  have j: "(1::nat) < length ?xs" "?xs ! 1 = JObj ?obj" by simp_all
  have q: "required_string ?obj ''questionId'' = Some ''q1''" by (simp add: required_string_def)
  have l: "\<forall>k. 1 < k \<and> k < length ?xs \<longrightarrow> question_id_of (?xs ! k) \<noteq> Some ''q1''" by auto
  have ids: "{q'. \<exists>x\<in>set ?xs. question_id_of x = Some q'} = {''q1''}"
    by (auto simp: question_id_of_def required_string_def)
  have so: "selected_of ?obj = [''n'']" "text_of ?obj = []"
    by (simp_all add: selected_of_def text_of_def strings_of_def)
  from duplicate_question_id_last_wins[OF v a j q l] v show ?thesis
    unfolding ids so by blast
qed

end
